theory Spec2Isabelle
  imports Complex_Main "HOL-Library.AList"
begin

section \<open>JavaScript values used by the wizard\<close>

text \<open>
  A JavaScript string is a sequence of UTF-16 code units; \<open>length\<close>, \<open>slice\<close> and the
  regular expressions of the source (none has the \<open>u\<close> flag) all work on code units.
  Free text is therefore a list of code units.  Identifiers of the program (question
  ids, storage keys, error codes, message keys) are ASCII and are kept as HOL strings.
\<close>

type_synonym jstring = "nat list"

definition ascii :: "string \<Rightarrow> jstring" where
  "ascii s = map of_char s"

text \<open>White space as \<open>String.prototype.trim\<close> and the class \<open>\s\<close> read it.\<close>

definition isWhiteSpace :: "nat \<Rightarrow> bool" where
  "isWhiteSpace c \<longleftrightarrow>
     (9 \<le> c \<and> c \<le> 13) \<or> c = 32 \<or> c = 160 \<or> c = 5760 \<or> (8192 \<le> c \<and> c \<le> 8202) \<or>
     c = 8232 \<or> c = 8233 \<or> c = 8239 \<or> c = 8287 \<or> c = 12288 \<or> c = 65279"

definition trim :: "jstring \<Rightarrow> jstring" where
  "trim s = rev (dropWhile isWhiteSpace (rev (dropWhile isWhiteSpace s)))"

definition slice :: "nat \<Rightarrow> nat \<Rightarrow> jstring \<Rightarrow> jstring" where
  "slice a b s = take (b - a) (drop a s)"

fun js_includes :: "'a list \<Rightarrow> 'a list \<Rightarrow> bool" where
  "js_includes s [] = (s = [])"
| "js_includes s (x # xs) = (take (length s) (x # xs) = s \<or> js_includes s xs)"

definition isDigit :: "nat \<Rightarrow> bool" where
  "isDigit c \<longleftrightarrow> 48 \<le> c \<and> c \<le> 57"

definition isUpper :: "nat \<Rightarrow> bool" where
  "isUpper c \<longleftrightarrow> 65 \<le> c \<and> c \<le> 90"

definition isLower :: "nat \<Rightarrow> bool" where
  "isLower c \<longleftrightarrow> 97 \<le> c \<and> c \<le> 122"

definition isWordChar :: "nat \<Rightarrow> bool" where
  "isWordChar c \<longleftrightarrow> isDigit c \<or> isUpper c \<or> isLower c \<or> c = 95"

section \<open>Regular expressions\<close>

text \<open>
  The fragment of the JavaScript regular expressions that the source uses: character
  classes, sequence, alternation, greedy repetition and the assertion \<open>\b\<close>.
  \<open>ends r t i\<close> lists the positions where a match of \<open>r\<close> that starts at \<open>i\<close> can end, in
  the order in which the backtracking matcher tries them; the match the engine reports
  is the first one.  An iteration of a starred group that consumes nothing is dropped,
  as the engine does.
\<close>

datatype rx =
    Chr "nat \<Rightarrow> bool"
  | Eps
  | Seq rx rx
  | Alt rx rx
  | Star rx
  | WordBoundary

definition wordAt :: "jstring \<Rightarrow> int \<Rightarrow> bool" where
  "wordAt t i \<longleftrightarrow> 0 \<le> i \<and> i < int (length t) \<and> isWordChar (t ! nat i)"

function ends :: "rx \<Rightarrow> jstring \<Rightarrow> nat \<Rightarrow> nat list" where
  "ends (Chr P) t i = (if i < length t \<and> P (t ! i) then [Suc i] else [])"
| "ends Eps t i = [i]"
| "ends (Seq r s) t i = concat (map (\<lambda>j. ends s t j) (ends r t i))"
| "ends (Alt r s) t i = ends r t i @ ends s t i"
| "ends (Star r) t i =
     concat (map (\<lambda>j. if i < j \<and> j \<le> length t then ends (Star r) t j else []) (ends r t i))
     @ [i]"
| "ends WordBoundary t i = (if wordAt t (int i - 1) \<noteq> wordAt t (int i) then [i] else [])"
  by pat_completeness auto
termination
  by (relation "measures [\<lambda>(r, t, i). size r, \<lambda>(r, t, i). length t - i]") auto

definition Opt :: "rx \<Rightarrow> rx" where
  "Opt r = Alt r Eps"

definition Plus :: "rx \<Rightarrow> rx" where
  "Plus r = Seq r (Star r)"

primrec Times :: "nat \<Rightarrow> rx \<Rightarrow> rx" where
  "Times 0 r = Eps"
| "Times (Suc n) r = Seq r (Times n r)"

primrec UpTo :: "nat \<Rightarrow> rx \<Rightarrow> rx" where
  "UpTo 0 r = Eps"
| "UpTo (Suc n) r = Opt (Seq r (UpTo n r))"

definition Between :: "nat \<Rightarrow> nat \<Rightarrow> rx \<Rightarrow> rx" where
  "Between m n r = Seq (Times m r) (UpTo (n - m) r)"

definition AtLeast :: "nat \<Rightarrow> rx \<Rightarrow> rx" where
  "AtLeast m r = Seq (Times m r) (Star r)"

definition Lit :: "nat \<Rightarrow> rx" where
  "Lit c = Chr (\<lambda>x. x = c)"

definition seqs :: "rx list \<Rightarrow> rx" where
  "seqs rs = foldr Seq rs Eps"

text \<open>
  \<open>RegExp.prototype.exec\<close>: the search starts at \<open>lastIndex\<close> and moves right until a
  start position matches.  For a regular expression with the \<open>g\<close> flag a success stores
  the end of the match in \<open>lastIndex\<close> and a failure stores 0.
\<close>

function rx_search :: "rx \<Rightarrow> jstring \<Rightarrow> nat \<Rightarrow> (nat \<times> nat) option" where
  "rx_search r t i =
     (if length t < i then None
      else (case ends r t i of e # _ \<Rightarrow> Some (i, e) | [] \<Rightarrow> rx_search r t (Suc i)))"
  by pat_completeness auto
termination
  by (relation "measure (\<lambda>(r, t, i). Suc (length t) - i)") auto

definition exec_global :: "rx \<Rightarrow> jstring \<Rightarrow> nat \<Rightarrow> (nat \<times> nat) option \<times> nat" where
  "exec_global r t lastIndex =
     (case rx_search r t lastIndex of
        None \<Rightarrow> (None, 0)
      | Some (i, e) \<Rightarrow> (Some (i, e), e))"

text \<open>\<open>test\<close> on a regular expression without the \<open>g\<close> flag: is there a match anywhere.\<close>

definition rx_test :: "rx \<Rightarrow> jstring \<Rightarrow> bool" where
  "rx_test r t \<longleftrightarrow> rx_search r t 0 \<noteq> None"

text \<open>The least number of code units a match of a pattern consumes.\<close>

fun minlen :: "rx \<Rightarrow> nat" where
  "minlen (Chr P) = 1"
| "minlen Eps = 0"
| "minlen (Seq r s) = minlen r + minlen s"
| "minlen (Alt r s) = min (minlen r) (minlen s)"
| "minlen (Star r) = 0"
| "minlen WordBoundary = 0"

declare rx_search.simps [simp del]
declare ends.simps(5) [simp del]

section \<open>Detection of personal information\<close>

definition dash_or_space :: rx where
  "dash_or_space = Chr (\<lambda>c. c = 45 \<or> isWhiteSpace c)"

definition digit :: rx where
  "digit = Chr isDigit"

definition email_rx :: rx where
  "email_rx = seqs
     [WordBoundary,
      Plus (Chr (\<lambda>c. isUpper c \<or> isLower c \<or> isDigit c \<or> c \<in> {46, 95, 37, 43, 45})),
      Lit 64,
      Plus (Chr (\<lambda>c. isUpper c \<or> isLower c \<or> isDigit c \<or> c \<in> {46, 45})),
      Lit 46,
      AtLeast 2 (Chr (\<lambda>c. isUpper c \<or> c = 124 \<or> isLower c)),
      WordBoundary]"

definition phone_rx :: rx where
  "phone_rx = seqs
     [Alt (seqs [Lit 43, Lit 56, Lit 49]) (Lit 48),
      Between 1 4 digit, Opt dash_or_space,
      Between 1 4 digit, Opt dash_or_space,
      Times 4 digit]"

definition phoneAlt_rx :: rx where
  "phoneAlt_rx = seqs [Times 3 digit, Lit 45, Times 4 digit, Lit 45, Times 4 digit]"

definition address_rx :: rx where
  "address_rx = seqs [Alt (Lit 12306) (Lit 12306), Times 3 digit, Opt dash_or_space, Times 4 digit]"

definition creditCard_rx :: rx where
  "creditCard_rx = seqs
     [WordBoundary,
      Times 4 digit, Opt dash_or_space,
      Times 4 digit, Opt dash_or_space,
      Times 4 digit, Opt dash_or_space,
      Times 4 digit,
      WordBoundary]"

definition socialSecurityJP_rx :: rx where
  "socialSecurityJP_rx = seqs [Times 4 digit, Lit 45, Times 2 digit, Lit 45, Times 4 digit]"

definition personalNumber_rx :: rx where
  "personalNumber_rx = Times 12 digit"

definition PII_PATTERNS :: "(string \<times> rx) list" where
  "PII_PATTERNS =
     [(''email'', email_rx),
      (''phone'', phone_rx),
      (''phoneAlt'', phoneAlt_rx),
      (''address'', address_rx),
      (''creditCard'', creditCard_rx),
      (''socialSecurityJP'', socialSecurityJP_rx),
      (''personalNumber'', personalNumber_rx)]"

text \<open>
  The patterns are module-level objects with the \<open>g\<close> flag, so each carries a
  \<open>lastIndex\<close> that survives from one call to the next.
\<close>

type_synonym regex_state = "string \<Rightarrow> nat"

definition at_rest :: regex_state where
  "at_rest = (\<lambda>_. 0)"

record pii_location =
  loc_type :: string
  loc_start :: nat
  loc_end :: nat
  loc_value :: jstring

record pii_result =
  hasPII :: bool
  types :: "string list"
  confidence :: rat
  locations :: "pii_location list"

definition pii_category :: "string \<Rightarrow> string" where
  "pii_category ty =
     (if ty = ''email'' then ''email''
      else if js_includes ''phone'' ty then ''phone''
      else if ty = ''address'' then ''address''
      else if ty = ''creditCard'' then ''creditCard''
      else ''personalId'')"

definition set_add :: "'a \<Rightarrow> 'a list \<Rightarrow> 'a list" where
  "set_add x xs = (if x \<in> set xs then xs else xs @ [x])"

text \<open>
  The \<open>while ((match = pattern.exec(text)) !== null)\<close> loop of one pattern.  It ends
  when \<open>exec\<close> fails; a match that does not move \<open>lastIndex\<close> would repeat for ever,
  which is the value \<open>None\<close>.
\<close>

partial_function (option) scan_pattern ::
  "string \<Rightarrow> rx \<Rightarrow> jstring \<Rightarrow> nat \<Rightarrow> pii_location list \<times> string list \<Rightarrow>
   ((pii_location list \<times> string list) \<times> nat) option"
where
  "scan_pattern ty r text lastIndex acc =
     (case exec_global r text lastIndex of
        (None, li) \<Rightarrow> Some (acc, li)
      | (Some (s, e), li) \<Rightarrow>
          scan_pattern ty r text li
            (fst acc @ [\<lparr>loc_type = ty, loc_start = s, loc_end = e, loc_value = slice s e text\<rparr>],
             set_add (pii_category ty) (snd acc)))"

declare scan_pattern.simps [code]

fun scan_all ::
  "(string \<times> rx) list \<Rightarrow> jstring \<Rightarrow> regex_state \<Rightarrow> pii_location list \<times> string list \<Rightarrow>
   ((pii_location list \<times> string list) \<times> regex_state) option"
where
  "scan_all [] text st acc = Some (acc, st)"
| "scan_all ((ty, r) # ps) text st acc =
     (case scan_pattern ty r text (st ty) acc of
        None \<Rightarrow> None
      | Some (acc', li) \<Rightarrow> scan_all ps text (st(ty := li)) acc')"

text \<open>
  \<open>locations.length * 0.3\<close> in the arithmetic of doubles.  A double is kept as the rational
  number it denotes.  The literal \<open>0.3\<close> is the double \<open>5404319552844595 / 2^54\<close>; a count
  below \<open>2^53\<close> is a double itself; the product the code computes is the exact product
  rounded to 53 significant bits, a tie going to the even neighbour.
\<close>

function bit_length :: "nat \<Rightarrow> nat" where
  "bit_length n = (if n = 0 then 0 else bit_length (n div 2) + 1)"
  by pat_completeness auto
termination
  by (relation "measure id") auto

definition round_to_53_bits :: "nat \<Rightarrow> nat" where
  "round_to_53_bits k =
     (let b = bit_length k in
      if b \<le> 53 then k
      else
        (let s = b - 53; q = k div 2 ^ s; r = k mod 2 ^ s; half = 2 ^ (s - 1)
         in (if r > half \<or> (r = half \<and> odd q) then q + 1 else q) * 2 ^ s))"

definition times_0_3 :: "nat \<Rightarrow> rat" where
  "times_0_3 n = of_nat (round_to_53_bits (n * 5404319552844595)) / 2 ^ 54"

declare bit_length.simps [simp del]

definition detectPII :: "regex_state \<Rightarrow> jstring \<Rightarrow> (pii_result \<times> regex_state) option" where
  "detectPII st text =
     (case scan_all PII_PATTERNS text st ([], []) of
        None \<Rightarrow> None
      | Some ((locs, tys), st') \<Rightarrow>
          Some (\<lparr>hasPII = (0 < length locs),
                 types = tys,
                 confidence = (if 0 < length locs then min (times_0_3 (length locs)) 1 else 0),
                 locations = locs\<rparr>, st'))"

text \<open>
  \<open>AnswerValidator.validateEmail\<close>: \<open>test\<close> on the email pattern of the table above, which
  has the \<open>g\<close> flag, so the call moves its \<open>lastIndex\<close>.
\<close>

definition validateEmail :: "regex_state \<Rightarrow> jstring \<Rightarrow> bool \<times> regex_state" where
  "validateEmail st v =
     (case exec_global email_rx v (st ''email'') of
        (m, li) \<Rightarrow> (m \<noteq> None, st(''email'' := li)))"

text \<open>
  The matches of a pattern in a text, as a global search enumerates them: the leftmost
  match at or after a position, then the matches after its end.  \<open>matchCount\<close> is the
  number of matches of all the patterns, each counted from the start of the text.
\<close>

function matches_from :: "rx \<Rightarrow> jstring \<Rightarrow> nat \<Rightarrow> (nat \<times> nat) list" where
  "matches_from r t i =
     (case rx_search r t i of
        None \<Rightarrow> []
      | Some (s, e) \<Rightarrow> (s, e) # (if i < e \<and> e \<le> length t then matches_from r t e else []))"
  by pat_completeness auto
termination
  by (relation "measure (\<lambda>(r, t, i). Suc (length t) - i)") auto

declare matches_from.simps [simp del]

definition location_of :: "string \<Rightarrow> jstring \<Rightarrow> nat \<times> nat \<Rightarrow> pii_location" where
  "location_of ty text m =
     \<lparr>loc_type = ty, loc_start = fst m, loc_end = snd m, loc_value = slice (fst m) (snd m) text\<rparr>"

definition found_locations :: "regex_state \<Rightarrow> jstring \<Rightarrow> pii_location list" where
  "found_locations st text =
     concat (map (\<lambda>(ty, r). map (location_of ty text) (matches_from r text (st ty))) PII_PATTERNS)"

text \<open>The state of the patterns after a scan: every pattern of the table is back at 0.\<close>

definition rested :: "(string \<times> rx) list \<Rightarrow> regex_state \<Rightarrow> regex_state" where
  "rested ps st = (\<lambda>ty. if ty \<in> fst ` set ps then 0 else st ty)"

definition matchCount :: "jstring \<Rightarrow> nat" where
  "matchCount text = sum_list (map (\<lambda>(ty, r). length (matches_from r text 0)) PII_PATTERNS)"

section \<open>Answers and question definitions\<close>

text \<open>
  A number is a double in the source.  \<open>Num\<close> holds the integers.  \<open>Fraction\<close> holds any
  other finite double, kept as the decimal text that \<open>String\<close> and \<open>JSON.stringify\<close> write
  for it, such as \<open>0.5\<close> or \<open>1.5e-7\<close>; \<open>JSON.parse\<close> reads that text back to the same
  double.  \<open>NaN\<close> and the two infinities are the doubles that JSON has no text for.
\<close>

datatype js_number = NaN | PosInfinity | NegInfinity | Num int | Fraction jstring

text \<open>
  A time is a number of milliseconds.  A timestamp holds a \<open>Date\<close> object while the
  session is in memory and the ISO-8601 text of that date once it has been through JSON.
\<close>

datatype js_date = Date int | IsoString int

text \<open>
  The values a record answer can hold, \<open>unknown\<close> in the source: \<open>undefined\<close>, \<open>null\<close>,
  booleans, numbers, strings, dates, functions, arrays and objects.
\<close>

datatype js_value =
    JUndefined
  | JNull
  | JBoolean bool
  | JNumber js_number
  | JString jstring
  | JDate js_date
  | JFunction
  | JArray "js_value list"
  | JObject "(string \<times> js_value) list"

text \<open>
  \<open>AnswerValue\<close>: a string, a number, a boolean, an array of strings or a record of
  values of any kind.  \<open>VNull\<close> is not part of the declared type, but it is what a stored
  \<open>NaN\<close> comes back as, and the validator tests for it.  An answer that is absent
  (\<open>undefined\<close>) is \<open>None\<close> of the option type.
\<close>

datatype answer_value =
    VString jstring
  | VNumber js_number
  | VBoolean bool
  | VArray "jstring list"
  | VRecord "(string \<times> js_value) list"
  | VNull

type_synonym answer_map = "(string \<times> answer_value) list"

definition lookup :: "('k \<times> 'v) list \<Rightarrow> 'k \<Rightarrow> 'v option" where
  "lookup m k = map_of m k"

function digits_of :: "nat \<Rightarrow> jstring" where
  "digits_of n = (if n < 10 then [48 + n] else digits_of (n div 10) @ [48 + n mod 10])"
  by pat_completeness auto
termination
  by (relation "measure id") auto

definition join :: "jstring \<Rightarrow> jstring list \<Rightarrow> jstring" where
  "join sep xs = (case xs of [] \<Rightarrow> [] | y # ys \<Rightarrow> y @ concat (map (\<lambda>z. sep @ z) ys))"

text \<open>\<open>String(value)\<close>; an integer is written in plain digits, as it is below \<open>10^21\<close>,
  where the exponent notation starts.\<close>

fun js_String :: "answer_value \<Rightarrow> jstring" where
  "js_String (VString s) = s"
| "js_String (VNumber NaN) = ascii ''NaN''"
| "js_String (VNumber PosInfinity) = ascii ''Infinity''"
| "js_String (VNumber NegInfinity) = ascii ''-Infinity''"
| "js_String (VNumber (Fraction s)) = s"
| "js_String (VNumber (Num n)) = (if n < 0 then 45 # digits_of (nat (- n)) else digits_of (nat n))"
| "js_String (VBoolean b) = (if b then ascii ''true'' else ascii ''false'')"
| "js_String (VArray xs) = join [44] xs"
| "js_String (VRecord kvs) = ascii ''[object Object]''"
| "js_String VNull = ascii ''null''"

text \<open>Truthiness of \<open>answers[key]\<close>, as \<open>||\<close>, \<open>if\<close> and \<open>filter(Boolean)\<close> read it.\<close>

fun truthy :: "answer_value option \<Rightarrow> bool" where
  "truthy None = False"
| "truthy (Some (VString s)) = (s \<noteq> [])"
| "truthy (Some (VNumber NaN)) = False"
| "truthy (Some (VNumber PosInfinity)) = True"
| "truthy (Some (VNumber NegInfinity)) = True"
| "truthy (Some (VNumber (Fraction s))) = True"
| "truthy (Some (VNumber (Num n))) = (n \<noteq> 0)"
| "truthy (Some (VBoolean b)) = b"
| "truthy (Some (VArray xs)) = True"
| "truthy (Some (VRecord kvs)) = True"
| "truthy (Some VNull) = False"

datatype question_type = ShortText | LongText | SingleChoice | MultipleChoice | Numeric

text \<open>
  \<open>QuestionDefinition\<close>.  The i18n keys of a question and of its options carry no
  logic and are left out; an option is its value.  \<open>pattern\<close> is a regular expression
  without the \<open>g\<close> flag.
\<close>

record question_definition =
  qid :: string
  layer :: int
  step :: int
  qtype :: question_type
  required :: bool
  minLength :: "int option"
  maxLength :: "int option"
  pattern :: "rx option"
  options :: "jstring list option"
  dependsOn :: "string list option"
  showIf :: "(answer_map \<Rightarrow> bool) option"

record validation_error =
  field :: string
  message :: string
  code :: string

section \<open>Validation\<close>

datatype js_error =
    ConstitutionalViolationError string
  | TypeError
  | StorageError string
  | DraftError string
  | Error string

text \<open>
  \<open>ConstitutionalValidator.validateLayerProgression\<close>.  For a layer other than 1, 2
  or 3 the table lookup yields \<open>undefined\<close>, and destructuring it raises a
  \<open>TypeError\<close>.
\<close>

definition layerRanges :: "int \<Rightarrow> (int \<times> int) option" where
  "layerRanges l =
     (if l = 1 then Some (1, 5) else if l = 2 then Some (6, 10) else if l = 3 then Some (11, 15)
      else None)"

definition validateLayerProgression :: "int \<Rightarrow> int \<Rightarrow> js_error + bool" where
  "validateLayerProgression currentStep currentLayer =
     (case layerRanges currentLayer of
        None \<Rightarrow> Inl TypeError
      | Some (mn, mx) \<Rightarrow> Inr (currentStep \<ge> mn \<and> currentStep \<le> mx))"

definition validateAutoSaveInterval :: "int \<Rightarrow> bool" where
  "validateAutoSaveInterval intervalMs \<longleftrightarrow> intervalMs = 2000"

definition validateOutputGenerationTime :: "int \<Rightarrow> int \<Rightarrow> bool" where
  "validateOutputGenerationTime startTime endTime \<longleftrightarrow> endTime - startTime \<le> 5000"

fun validateRequired :: "answer_value option \<Rightarrow> bool" where
  "validateRequired None = False"
| "validateRequired (Some VNull) = False"
| "validateRequired (Some (VString s)) = (length (trim s) > 0)"
| "validateRequired (Some (VArray xs)) = (length xs > 0)"
| "validateRequired (Some (VNumber n)) = (n \<noteq> NaN)"
| "validateRequired (Some (VBoolean b)) = True"
| "validateRequired (Some (VRecord kvs)) = (length kvs > 0)"

definition validateLength :: "jstring \<Rightarrow> int option \<Rightarrow> int option \<Rightarrow> bool" where
  "validateLength v mn mx =
     (let len = int (length (trim v)) in
      if mn \<noteq> None \<and> len < the mn then False
      else if mx \<noteq> None \<and> len > the mx then False
      else True)"

definition validatePattern :: "jstring \<Rightarrow> rx \<Rightarrow> bool" where
  "validatePattern v p = rx_test p v"

text \<open>
  \<open>!isNaN(parseFloat(s))\<close>: after leading white space and an optional sign the text
  starts with \<open>Infinity\<close>, with a digit, or with a dot and a digit.
\<close>

definition parseFloat_ok :: "jstring \<Rightarrow> bool" where
  "parseFloat_ok s =
     (let t = dropWhile isWhiteSpace s;
          u = (case t of c # cs \<Rightarrow> if c = 43 \<or> c = 45 then cs else t | [] \<Rightarrow> t)
      in take 8 u = ascii ''Infinity'' \<or>
         (case u of
            c # cs \<Rightarrow> isDigit c \<or> (c = 46 \<and> (case cs of d # _ \<Rightarrow> isDigit d | [] \<Rightarrow> False))
          | [] \<Rightarrow> False))"

fun validateNumeric :: "answer_value \<Rightarrow> bool" where
  "validateNumeric (VNumber n) = (n \<noteq> NaN)"
| "validateNumeric (VString s) = parseFloat_ok s"
| "validateNumeric _ = False"

fun validateChoice :: "answer_value \<Rightarrow> jstring list \<Rightarrow> bool" where
  "validateChoice (VString s) opts = (s \<in> set opts)"
| "validateChoice (VArray xs) opts = list_all (\<lambda>v. v \<in> set opts) xs"
| "validateChoice _ opts = False"

definition mk_error :: "string \<Rightarrow> string \<Rightarrow> string \<Rightarrow> validation_error" where
  "mk_error f m c = \<lparr>field = f, message = m, code = c\<rparr>"

definition nonzero :: "int option \<Rightarrow> bool" where
  "nonzero n \<longleftrightarrow> (case n of None \<Rightarrow> False | Some k \<Rightarrow> k \<noteq> 0)"

text \<open>
  \<open>QuestionValidator.validateAnswer\<close>, check by check in the order of the source.  The
  value is known to be present after the early return, so \<open>the\<close> is applied to
  \<open>Some\<close> only.
\<close>

definition length_errors :: "question_definition \<Rightarrow> jstring \<Rightarrow> validation_error list" where
  "length_errors q stringValue =
     (if nonzero (minLength q) \<or> nonzero (maxLength q) then
        (if \<not> validateLength stringValue (minLength q) (maxLength q) then
           [mk_error (qid q)
              (if nonzero (minLength q) then ''validation.minLength'' else ''validation.maxLength'')
              ''LENGTH'']
         else [])
      else [])"

definition pattern_errors :: "question_definition \<Rightarrow> answer_value \<Rightarrow> validation_error list" where
  "pattern_errors q v =
     (case (pattern q, v) of
        (Some p, VString s) \<Rightarrow>
          if \<not> validatePattern s p then [mk_error (qid q) ''validation.pattern'' ''PATTERN''] else []
      | _ \<Rightarrow> [])"

definition type_errors :: "question_definition \<Rightarrow> answer_value \<Rightarrow> validation_error list" where
  "type_errors q v =
     (case qtype q of
        Numeric \<Rightarrow>
          if \<not> validateNumeric v then [mk_error (qid q) ''validation.numeric'' ''TYPE''] else []
      | SingleChoice \<Rightarrow>
          (case options q of
             Some opts \<Rightarrow>
               if \<not> validateChoice v opts
               then [mk_error (qid q) ''validation.invalidChoice'' ''CHOICE''] else []
           | None \<Rightarrow> [])
      | MultipleChoice \<Rightarrow>
          (case options q of
             Some opts \<Rightarrow>
               if \<not> validateChoice v opts
               then [mk_error (qid q) ''validation.invalidChoice'' ''CHOICE''] else []
           | None \<Rightarrow> [])
      | _ \<Rightarrow> [])"

definition dependency_errors ::
  "question_definition \<Rightarrow> answer_map option \<Rightarrow> validation_error list" where
  "dependency_errors q allAnswers =
     (case (dependsOn q, allAnswers) of
        (Some deps, Some a) \<Rightarrow>
          (let missingDependencies = filter (\<lambda>depId. \<not> validateRequired (lookup a depId)) deps
           in if length missingDependencies > 0
              then [mk_error (qid q) ''validation.dependencyNotMet'' ''DEPENDENCY''] else [])
      | _ \<Rightarrow> [])"

definition hidden :: "question_definition \<Rightarrow> answer_map option \<Rightarrow> bool" where
  "hidden q allAnswers =
     (case (showIf q, allAnswers) of (Some f, Some a) \<Rightarrow> \<not> f a | _ \<Rightarrow> False)"

definition validateAnswer ::
  "question_definition \<Rightarrow> answer_value option \<Rightarrow> answer_map option \<Rightarrow> validation_error list"
where
  "validateAnswer q v allAnswers =
     (let errors =
            (if required q \<and> \<not> validateRequired v
             then [mk_error (qid q) ''validation.required'' ''REQUIRED''] else [])
      in if \<not> validateRequired v then errors
         else
           (let stringValue = js_String (the v);
                errors = errors @ length_errors q stringValue;
                errors = errors @ pattern_errors q (the v);
                errors = errors @ type_errors q (the v);
                errors = errors @ dependency_errors q allAnswers
            in if hidden q allAnswers then [] else errors))"

text \<open>\<open>validateAllAnswers\<close>: the questions with a non-empty error list, keyed by id.\<close>

definition validateAllAnswers ::
  "question_definition list \<Rightarrow> answer_map \<Rightarrow> (string \<times> validation_error list) list" where
  "validateAllAnswers qs a =
     foldl (\<lambda>allErrors q.
              let errors = validateAnswer q (lookup a (qid q)) (Some a)
              in if length errors > 0 then AList.update (qid q) errors allErrors else allErrors)
           [] qs"

section \<open>The wizard state\<close>

record wizard_state =
  wizard_id :: string
  currentStep :: int
  currentLayer :: int
  answers :: answer_map
  startedAt :: js_date
  lastModified :: js_date
  isComplete :: bool
  draftSaved :: bool
  stateErrors :: "(string \<times> string list) list"

text \<open>The state of the hook \<open>useWizardState\<close> and its options.\<close>

record hook_state =
  wizardState :: wizard_state
  validationErrors :: "(string \<times> validation_error list) list"
  lastSavedAt :: "js_date option"
  hasDraft :: bool

record wizard_options =
  autoSave :: bool
  autoSaveInterval :: int
  enableDrafts :: bool
  questions :: "question_definition list"

definition new_session :: "string \<Rightarrow> int \<Rightarrow> wizard_state" where
  "new_session newId now =
     \<lparr>wizard_id = newId, currentStep = 1, currentLayer = 1, answers = [],
      startedAt = Date now, lastModified = Date now, isComplete = False, draftSaved = False,
      stateErrors = []\<rparr>"

definition initial_state :: "string \<Rightarrow> int \<Rightarrow> hook_state" where
  "initial_state newId now =
     \<lparr>wizardState = new_session newId now, validationErrors = [], lastSavedAt = None,
      hasDraft = False\<rparr>"

text \<open>\<open>validateConstitutionalCompliance\<close>: \<open>None\<close> when nothing is thrown.\<close>

definition validateConstitutionalCompliance ::
  "wizard_options \<Rightarrow> wizard_state \<Rightarrow> js_error option" where
  "validateConstitutionalCompliance opts s =
     (case validateLayerProgression (currentStep s) (currentLayer s) of
        Inl e \<Rightarrow> Some e
      | Inr ok \<Rightarrow>
          if \<not> ok then Some (ConstitutionalViolationError ''layerProgression'')
          else if autoSave opts \<and> \<not> validateAutoSaveInterval (autoSaveInterval opts)
          then Some (ConstitutionalViolationError ''autoSaveInterval'')
          else None)"

definition getLayerFromStep :: "int \<Rightarrow> int" where
  "getLayerFromStep s = (if s \<le> 5 then 1 else if s \<le> 10 then 2 else 3)"

text \<open>
  The transitions.  \<open>now\<close> is the clock reading of \<open>new Date()\<close>.  The compliance check
  runs inside the function handed to \<open>setWizardState\<close>.  When it throws, the update is
  lost: the state stays the one before the call, although \<open>nextStep\<close> and \<open>goToStep\<close>
  have handed \<open>true\<close> to their caller by then, and the exception surfaces when the update
  is processed.  That outcome is \<open>Inl\<close>.
\<close>

definition setAnswer ::
  "wizard_options \<Rightarrow> string \<Rightarrow> answer_value \<Rightarrow> int \<Rightarrow> hook_state \<Rightarrow> js_error + hook_state" where
  "setAnswer opts questionId v now hs =
     (let prev = wizardState hs;
          newState = prev\<lparr>answers := AList.update questionId v (answers prev),
                          lastModified := Date now, draftSaved := False\<rparr>
      in case validateConstitutionalCompliance opts newState of
           Some e \<Rightarrow> Inl e
         | None \<Rightarrow>
             Inr (hs\<lparr>wizardState := newState,
                     validationErrors :=
                       (case find (\<lambda>q. qid q = questionId) (questions opts) of
                          Some q \<Rightarrow>
                            AList.update questionId
                              (validateAnswer q (Some v) (Some (answers prev)))
                              (validationErrors hs)
                        | None \<Rightarrow> validationErrors hs)\<rparr>))"

definition nextStep :: "wizard_options \<Rightarrow> int \<Rightarrow> hook_state \<Rightarrow> js_error + (bool \<times> hook_state)" where
  "nextStep opts now hs =
     (let ws = wizardState hs in
      case find (\<lambda>q. step q = currentStep ws) (questions opts) of
        None \<Rightarrow> Inr (False, hs)
      | Some currentQuestion \<Rightarrow>
          (let errors = validateAnswer currentQuestion
                          (lookup (answers ws) (qid currentQuestion)) (Some (answers ws))
           in if length errors > 0 then
                Inr (False, hs\<lparr>validationErrors :=
                                  AList.update (qid currentQuestion) errors (validationErrors hs)\<rparr>)
              else if currentStep ws \<ge> 15 then Inr (False, hs)
              else
                (let newStep = currentStep ws + 1;
                     newLayer = getLayerFromStep newStep;
                     newState = ws\<lparr>currentStep := newStep, currentLayer := newLayer,
                                    lastModified := Date now, draftSaved := False\<rparr>
                 in case validateConstitutionalCompliance opts newState of
                      Some e \<Rightarrow> Inl e
                    | None \<Rightarrow> Inr (True, hs\<lparr>wizardState := newState\<rparr>))))"

definition previousStep :: "int \<Rightarrow> hook_state \<Rightarrow> bool \<times> hook_state" where
  "previousStep now hs =
     (let ws = wizardState hs in
      if currentStep ws \<le> 1 then (False, hs)
      else
        (let newStep = currentStep ws - 1;
             newLayer = getLayerFromStep newStep
         in (True, hs\<lparr>wizardState := ws\<lparr>currentStep := newStep, currentLayer := newLayer,
                                          lastModified := Date now, draftSaved := False\<rparr>\<rparr>)))"

definition goToStep ::
  "wizard_options \<Rightarrow> int \<Rightarrow> int \<Rightarrow> hook_state \<Rightarrow> js_error + (bool \<times> hook_state)" where
  "goToStep opts stp now hs =
     (if stp < 1 \<or> stp > 15 then Inr (False, hs)
      else
        (let newLayer = getLayerFromStep stp;
             newState = (wizardState hs)\<lparr>currentStep := stp, currentLayer := newLayer,
                                         lastModified := Date now, draftSaved := False\<rparr>
         in case validateConstitutionalCompliance opts newState of
              Some e \<Rightarrow> Inl e
            | None \<Rightarrow> Inr (True, hs\<lparr>wizardState := newState\<rparr>)))"

definition reset :: "string \<Rightarrow> int \<Rightarrow> hook_state \<Rightarrow> hook_state" where
  "reset newId now hs =
     hs\<lparr>wizardState := new_session newId now, validationErrors := [], lastSavedAt := None,
        hasDraft := False\<rparr>"

definition complete :: "wizard_options \<Rightarrow> int \<Rightarrow> hook_state \<Rightarrow> bool \<times> hook_state" where
  "complete opts now hs =
     (let allErrors = validateAllAnswers (questions opts) (answers (wizardState hs))
      in if length allErrors > 0 then (False, hs\<lparr>validationErrors := allErrors\<rparr>)
         else (True, hs\<lparr>wizardState := (wizardState hs)\<lparr>isComplete := True,
                                                          lastModified := Date now\<rparr>\<rparr>))"

section \<open>Draft storage\<close>

text \<open>
  \<open>localStorage\<close> is an ordered list of keys with their texts: \<open>key(i)\<close> is the key of
  the \<open>i\<close>-th entry, \<open>setItem\<close> overwrites in place or appends, \<open>removeItem\<close> takes the
  entry out and the later entries move up.  A text that \<open>JSON.parse\<close> and
  \<open>DraftStorageSchema.parse\<close> accept is kept in its parsed form, \<open>DraftJSON\<close>; any
  other text is \<open>Raw\<close>.  The text of a date is the time it denotes, \<open>None\<close> when
  \<open>new Date(text)\<close> is an invalid date.
\<close>

record draft_metadata =
  savedAt :: "int option"
  expiresAt :: "int option"
  checksum :: "string option"
  encrypted :: bool
  compressionUsed :: bool

record draft_storage =
  version :: string
  wizardId :: string
  data :: wizard_state
  metadata :: draft_metadata

datatype stored_value = Raw jstring | DraftJSON draft_storage

type_synonym local_storage = "(string \<times> stored_value) list"

text \<open>
  What the model does not compute: the text that \<open>JSON.stringify\<close> writes for a value
  already in JSON form, and the SHA-256 digest.  Both are parameters.
\<close>

record storage_env =
  render_state :: "wizard_state \<Rightarrow> jstring"
  render_draft :: "draft_storage \<Rightarrow> jstring"
  sha256 :: "jstring \<Rightarrow> string"

text \<open>
  The JSON form of a value: what \<open>JSON.parse\<close> reads from the text that \<open>JSON.stringify\<close>
  writes for it.  A \<open>Date\<close> becomes its ISO text; \<open>NaN\<close> and the infinities become
  \<open>null\<close>; \<open>undefined\<close> and a function have no JSON form (\<open>None\<close>): in an array they are
  written as \<open>null\<close>, and an entry of an object that holds one is left out.
\<close>

fun isFinite :: "js_number \<Rightarrow> bool" where
  "isFinite NaN = False"
| "isFinite PosInfinity = False"
| "isFinite NegInfinity = False"
| "isFinite (Num n) = True"
| "isFinite (Fraction s) = True"

fun date_toJSON :: "js_date \<Rightarrow> js_date" where
  "date_toJSON (Date t) = IsoString t"
| "date_toJSON (IsoString t) = IsoString t"

fun js_toJSON :: "js_value \<Rightarrow> js_value option" where
  "js_toJSON JUndefined = None"
| "js_toJSON JFunction = None"
| "js_toJSON JNull = Some JNull"
| "js_toJSON (JBoolean b) = Some (JBoolean b)"
| "js_toJSON (JNumber n) = Some (if isFinite n then JNumber n else JNull)"
| "js_toJSON (JString s) = Some (JString s)"
| "js_toJSON (JDate d) = Some (JDate (date_toJSON d))"
| "js_toJSON (JArray xs) =
     Some (JArray (map (\<lambda>x. case js_toJSON x of None \<Rightarrow> JNull | Some y \<Rightarrow> y) xs))"
| "js_toJSON (JObject kvs) =
     Some (JObject (concat (map (\<lambda>(k, v). case js_toJSON v of None \<Rightarrow> []
                                            | Some w \<Rightarrow> [(k, w)]) kvs)))"

definition entries_toJSON :: "(string \<times> js_value) list \<Rightarrow> (string \<times> js_value) list" where
  "entries_toJSON kvs =
     concat (map (\<lambda>(k, v). case js_toJSON v of None \<Rightarrow> [] | Some w \<Rightarrow> [(k, w)]) kvs)"

fun value_toJSON :: "answer_value \<Rightarrow> answer_value" where
  "value_toJSON (VNumber n) = (if isFinite n then VNumber n else VNull)"
| "value_toJSON (VRecord kvs) = VRecord (entries_toJSON kvs)"
| "value_toJSON v = v"

text \<open>
  The JSON form of a session.  \<open>JSON.stringify\<close> writes the text of the JSON form;
  \<open>JSON.parse\<close> of that text gives the JSON form back.
\<close>

definition state_toJSON :: "wizard_state \<Rightarrow> wizard_state" where
  "state_toJSON ws =
     ws\<lparr>answers := map (\<lambda>(k, v). (k, value_toJSON v)) (answers ws),
        startedAt := date_toJSON (startedAt ws),
        lastModified := date_toJSON (lastModified ws)\<rparr>"

definition JSON_stringify :: "storage_env \<Rightarrow> wizard_state \<Rightarrow> jstring" where
  "JSON_stringify env ws = render_state env (state_toJSON ws)"

definition DRAFT_PREFIX :: string where
  "DRAFT_PREFIX = ''wizard-draft-''"

definition DRAFT_RETENTION_HOURS :: int where
  "DRAFT_RETENTION_HOURS = 24"

definition startsWith :: "'a list \<Rightarrow> 'a list \<Rightarrow> bool" where
  "startsWith p s \<longleftrightarrow> take (length p) s = p"

definition stored_text :: "storage_env \<Rightarrow> stored_value \<Rightarrow> jstring" where
  "stored_text env v = (case v of Raw s \<Rightarrow> s | DraftJSON d \<Rightarrow> render_draft env d)"

text \<open>The size of a \<open>Blob\<close> of a text: its length in UTF-8.\<close>

fun utf8_size :: "jstring \<Rightarrow> nat" where
  "utf8_size [] = 0"
| "utf8_size [c] = (if c < 128 then 1 else if c < 2048 then 2 else 3)"
| "utf8_size (c # d # cs) =
     (if c < 128 then 1 + utf8_size (d # cs)
      else if c < 2048 then 2 + utf8_size (d # cs)
      else if 55296 \<le> c \<and> c < 56320 \<and> 56320 \<le> d \<and> d < 57344 then 4 + utf8_size cs
      else 3 + utf8_size (d # cs))"

definition usage_used :: "storage_env \<Rightarrow> local_storage \<Rightarrow> nat" where
  "usage_used env st =
     sum_list (map (\<lambda>(k, v). if k \<noteq> [] \<and> stored_text env v \<noteq> []
                               then length k + length (stored_text env v) else 0) st)"

definition usage_total :: nat where
  "usage_total = 5 * 1024 * 1024"

definition usage_percentage :: "storage_env \<Rightarrow> local_storage \<Rightarrow> nat" where
  "usage_percentage env st = (2 * 100 * usage_used env st + usage_total) div (2 * usage_total)"

definition checkQuota :: "storage_env \<Rightarrow> local_storage \<Rightarrow> nat \<Rightarrow> bool" where
  "checkQuota env st sizeInBytes \<longleftrightarrow> usage_used env st + sizeInBytes < usage_total"

definition expired :: "int \<Rightarrow> draft_storage \<Rightarrow> bool" where
  "expired now d = (case expiresAt (metadata d) of Some e \<Rightarrow> now > e | None \<Rightarrow> False)"

text \<open>\<open>cleanupExpiredDraftsSync\<close>: the keys are collected first and removed afterwards.\<close>

definition keysToRemove :: "int \<Rightarrow> local_storage \<Rightarrow> string list" where
  "keysToRemove now st =
     map fst (filter (\<lambda>(k, v). k \<noteq> [] \<and> startsWith DRAFT_PREFIX k \<and>
                               (case v of Raw s \<Rightarrow> s \<noteq> [] | DraftJSON d \<Rightarrow> expired now d)) st)"

definition cleanupExpiredDraftsSync :: "int \<Rightarrow> local_storage \<Rightarrow> nat \<times> local_storage" where
  "cleanupExpiredDraftsSync now st =
     (let ks = keysToRemove now st
      in (length ks, foldl (\<lambda>s k. AList.delete k s) st ks))"

definition handleQuotaExceeded ::
  "storage_env \<Rightarrow> int \<Rightarrow> local_storage \<Rightarrow> bool \<times> string \<times> local_storage" where
  "handleQuotaExceeded env now st =
     (let (cleanedCount, st') = cleanupExpiredDraftsSync now st
      in if cleanedCount > 0 then (True, [], st')
         else if usage_percentage env st' > 90 then (False, ''Storage quota nearly full'', st')
         else (False, ''Storage quota exceeded'', st'))"

text \<open>
  Whether \<open>detectPII\<close> finds something in a text, with the patterns at rest, as every
  call of \<open>detectPII\<close> leaves them.  \<open>detectPII\<close> always returns (lemma
  \<open>detectPII_returns\<close> below), so the last case never applies.
\<close>

definition pii_hasPII :: "jstring \<Rightarrow> bool" where
  "pii_hasPII text = (case detectPII at_rest text of Some (r, _) \<Rightarrow> hasPII r | None \<Rightarrow> False)"

definition saveDraft ::
  "storage_env \<Rightarrow> string \<Rightarrow> wizard_state \<Rightarrow> int \<Rightarrow> local_storage \<Rightarrow>
   js_error + (bool \<times> local_storage)" where
  "saveDraft env wid ws now st =
     (let expires = now + DRAFT_RETENTION_HOURS * 60 * 60 * 1000;
          stateString = JSON_stringify env ws;
          enc = pii_hasPII stateString;
          draftStorage =
            \<lparr>version = ''1.0'', wizardId = wid, data = state_toJSON ws,
             metadata = \<lparr>savedAt = Some now, expiresAt = Some expires,
                         checksum = Some (sha256 env stateString),
                         encrypted = enc, compressionUsed = False\<rparr>\<rparr>;
          dataToStore = render_draft env draftStorage;
          sizeInBytes = utf8_size dataToStore;
          key = DRAFT_PREFIX @ wid
      in if \<not> checkQuota env st sizeInBytes then
           (case handleQuotaExceeded env now st of
              (True, _, st') \<Rightarrow> Inr (True, AList.update key (DraftJSON draftStorage) st')
            | (False, _, _) \<Rightarrow> Inl (StorageError ''QUOTA_EXCEEDED''))
         else Inr (True, AList.update key (DraftJSON draftStorage) st))"

definition loadDraft ::
  "storage_env \<Rightarrow> string \<Rightarrow> int \<Rightarrow> local_storage \<Rightarrow>
   js_error + (wizard_state option \<times> local_storage)" where
  "loadDraft env wid now st =
     (let key = DRAFT_PREFIX @ wid in
      case lookup st key of
        None \<Rightarrow> Inr (None, st)
      | Some (Raw s) \<Rightarrow> if s = [] then Inr (None, st) else Inl (DraftError ''load'')
      | Some (DraftJSON draft) \<Rightarrow>
          if expired now draft then Inr (None, AList.delete key st)
          else
            (case checksum (metadata draft) of
               None \<Rightarrow> Inr (Some (data draft), st)
             | Some c \<Rightarrow>
                 if c \<noteq> [] \<and> sha256 env (JSON_stringify env (data draft)) \<noteq> c
                 then Inl (StorageError ''CORRUPTION_DETECTED'')
                 else Inr (Some (data draft), st)))"

text \<open>The record that \<open>saveDraft\<close> writes for a session.\<close>

definition draft_of :: "storage_env \<Rightarrow> string \<Rightarrow> wizard_state \<Rightarrow> int \<Rightarrow> draft_storage" where
  "draft_of env wid ws now =
     \<lparr>version = ''1.0'', wizardId = wid, data = state_toJSON ws,
      metadata = \<lparr>savedAt = Some now,
                  expiresAt = Some (now + DRAFT_RETENTION_HOURS * 60 * 60 * 1000),
                  checksum = Some (sha256 env (JSON_stringify env ws)),
                  encrypted = pii_hasPII (JSON_stringify env ws), compressionUsed = False\<rparr>\<rparr>"



text \<open>
  The values that JSON keeps as they are: no \<open>undefined\<close>, no function, no \<open>Date\<close> object
  and no number other than a finite one, at any depth.  A session is safe for JSON when
  all its answers are.
\<close>

fun json_value :: "js_value \<Rightarrow> bool" where
  "json_value JUndefined = False"
| "json_value JFunction = False"
| "json_value JNull = True"
| "json_value (JBoolean b) = True"
| "json_value (JNumber n) = isFinite n"
| "json_value (JString s) = True"
| "json_value (JDate d) = (case d of Date t \<Rightarrow> False | IsoString t \<Rightarrow> True)"
| "json_value (JArray xs) = list_all json_value xs"
| "json_value (JObject kvs) = list_all (\<lambda>(k, v). json_value v) kvs"



text \<open>\<open>DraftMetadata\<close>, the entries of \<open>listDrafts\<close>.\<close>

record draft_info =
  dm_wizardId :: string
  dm_savedAt :: "int option"
  dm_expiresAt :: "int option"
  dm_currentStep :: int
  dm_answersCount :: nat
  dm_containsPII :: bool
  dm_size :: nat
  dm_checksum :: "string option"

definition draft_info_of :: "storage_env \<Rightarrow> string \<Rightarrow> draft_storage \<Rightarrow> draft_info" where
  "draft_info_of env key draft =
     \<lparr>dm_wizardId = drop (length DRAFT_PREFIX) key,
      dm_savedAt = savedAt (metadata draft),
      dm_expiresAt = expiresAt (metadata draft),
      dm_currentStep = (if currentStep (data draft) = 0 then 1 else currentStep (data draft)),
      dm_answersCount = length (answers (data draft)),
      dm_containsPII = pii_hasPII (JSON_stringify env (data draft)),
      dm_size = utf8_size (render_draft env draft),
      dm_checksum = checksum (metadata draft)\<rparr>"

text \<open>
  One round of the loop of \<open>listDrafts\<close> on the entry at index \<open>i\<close>: the storage and the
  list after it.
\<close>

definition listDrafts_visit ::
  "storage_env \<Rightarrow> int \<Rightarrow> string \<times> stored_value \<Rightarrow> local_storage \<times> draft_info list \<Rightarrow>
   local_storage \<times> draft_info list" where
  "listDrafts_visit env now entry acc =
     (let (key, stored) = entry; (st, drafts) = acc in
      if key \<noteq> [] \<and> startsWith DRAFT_PREFIX key then
        (case stored of
           Raw s \<Rightarrow> if s = [] then (st, drafts) else (AList.delete key st, drafts)
         | DraftJSON draft \<Rightarrow>
             (case expiresAt (metadata draft) of
                Some e \<Rightarrow>
                  if now \<le> e then (st, drafts @ [draft_info_of env key draft])
                  else (AList.delete key st, drafts)
              | None \<Rightarrow> (AList.delete key st, drafts)))
      else (st, drafts))"

function listDrafts_loop ::
  "storage_env \<Rightarrow> int \<Rightarrow> nat \<Rightarrow> local_storage \<times> draft_info list \<Rightarrow>
   local_storage \<times> draft_info list" where
  "listDrafts_loop env now i acc =
     (if i < length (fst acc)
      then listDrafts_loop env now (Suc i) (listDrafts_visit env now (fst acc ! i) acc)
      else acc)"
  by pat_completeness auto
termination
proof (relation "measure (\<lambda>(env, now, i, acc). length (fst acc) - i)")
  show "wf (measure (\<lambda>(env, now, i, acc). length (fst acc) - i))" by simp
next
  fix env :: storage_env and now :: int and i :: nat and acc :: "local_storage \<times> draft_info list"
  assume "i < length (fst acc)"
  moreover have "length (fst (listDrafts_visit env now (fst acc ! i) acc)) \<le> length (fst acc)"
  proof -
    have "length (AList.delete k st) \<le> length st" for k :: string and st :: local_storage
      by (simp add: AList.delete_eq)
    then show ?thesis
      by (cases acc)
        (auto simp: listDrafts_visit_def split: prod.splits stored_value.splits option.splits)
  qed
  ultimately show "((env, now, Suc i, listDrafts_visit env now (fst acc ! i) acc), (env, now, i, acc))
          \<in> measure (\<lambda>(env, now, i, acc). length (fst acc) - i)"
    by simp
qed

declare listDrafts_loop.simps [simp del]

text \<open>
  \<open>drafts.sort((a, b) => b.savedAt - a.savedAt)\<close>: a stable sort; a comparison with an
  invalid date is \<open>NaN\<close>, which the sort reads as 0.
\<close>

definition by_savedAt_desc :: "draft_info \<Rightarrow> draft_info \<Rightarrow> int" where
  "by_savedAt_desc a b =
     (case (dm_savedAt b, dm_savedAt a) of (Some y, Some x) \<Rightarrow> y - x | _ \<Rightarrow> 0)"

fun insort_cmp :: "('a \<Rightarrow> 'a \<Rightarrow> int) \<Rightarrow> 'a \<Rightarrow> 'a list \<Rightarrow> 'a list" where
  "insort_cmp c x [] = [x]"
| "insort_cmp c x (y # ys) = (if c x y > 0 then y # insort_cmp c x ys else x # y # ys)"

definition sort_cmp :: "('a \<Rightarrow> 'a \<Rightarrow> int) \<Rightarrow> 'a list \<Rightarrow> 'a list" where
  "sort_cmp c xs = foldr (insort_cmp c) xs []"

definition listDrafts ::
  "storage_env \<Rightarrow> int \<Rightarrow> local_storage \<Rightarrow> draft_info list \<times> local_storage" where
  "listDrafts env now st =
     (let (st', drafts) = listDrafts_loop env now 0 (st, [])
      in (sort_cmp by_savedAt_desc drafts, st'))"

definition deleteDraft :: "string \<Rightarrow> local_storage \<Rightarrow> bool \<times> local_storage" where
  "deleteDraft wid st = (True, AList.delete (DRAFT_PREFIX @ wid) st)"

text \<open>
  The hook's \<open>loadDraft\<close> and \<open>saveDraft\<close>, on the hook state and the storage.  Both
  catch every exception and answer \<open>false\<close>.
\<close>

definition hook_loadDraft ::
  "wizard_options \<Rightarrow> storage_env \<Rightarrow> string \<Rightarrow> int \<Rightarrow> hook_state \<times> local_storage \<Rightarrow>
   bool \<times> hook_state \<times> local_storage" where
  "hook_loadDraft opts env wid now w =
     (let (hs, st) = w in
      if \<not> enableDrafts opts then (False, hs, st)
      else
        (case loadDraft env wid now st of
           Inl e \<Rightarrow> (False, hs, st)
         | Inr (None, st') \<Rightarrow> (False, hs, st')
         | Inr (Some draftState, st') \<Rightarrow>
             (case validateConstitutionalCompliance opts draftState of
                Some e \<Rightarrow> (False, hs, st')
              | None \<Rightarrow>
                  (True,
                   hs\<lparr>wizardState := draftState, lastSavedAt := Some (lastModified draftState),
                      hasDraft := True\<rparr>,
                   st'))))"

definition hook_saveDraft ::
  "wizard_options \<Rightarrow> storage_env \<Rightarrow> int \<Rightarrow> hook_state \<times> local_storage \<Rightarrow>
   bool \<times> hook_state \<times> local_storage" where
  "hook_saveDraft opts env now w =
     (let (hs, st) = w in
      if \<not> enableDrafts opts then (False, hs, st)
      else
        (case saveDraft env (wizard_id (wizardState hs)) (wizardState hs) now st of
           Inl e \<Rightarrow> (False, hs, st)
         | Inr (success, st') \<Rightarrow>
             if success
             then (True,
                   hs\<lparr>lastSavedAt := Some (Date now),
                      wizardState := (wizardState hs)\<lparr>draftSaved := True\<rparr>\<rparr>,
                   st')
             else (False, hs, st')))"

text \<open>The debounced auto-save, when its timer fires.\<close>

definition autoSave_fires ::
  "wizard_options \<Rightarrow> storage_env \<Rightarrow> int \<Rightarrow> hook_state \<times> local_storage \<Rightarrow>
   hook_state \<times> local_storage" where
  "autoSave_fires opts env now w =
     (if \<not> enableDrafts opts \<or> \<not> autoSave opts then w
      else snd (hook_saveDraft opts env now w))"

text \<open>
  The states the hook can be in: the initial one over any content of the storage, and
  what the operations make of a reachable one.  An operation that throws leaves the
  state as it was.  Other tabs share the storage, so it can change between operations.
\<close>

inductive reachable :: "wizard_options \<Rightarrow> storage_env \<Rightarrow> hook_state \<times> local_storage \<Rightarrow> bool"
  for opts :: wizard_options and env :: storage_env
where
  r_init: "reachable opts env (initial_state newId now, st)"
| r_storage: "reachable opts env (hs, st) \<Longrightarrow> reachable opts env (hs, st')"
| r_setAnswer:
    "reachable opts env (hs, st) \<Longrightarrow> setAnswer opts questionId v now hs = Inr hs' \<Longrightarrow>
     reachable opts env (hs', st)"
| r_nextStep:
    "reachable opts env (hs, st) \<Longrightarrow> nextStep opts now hs = Inr (b, hs') \<Longrightarrow>
     reachable opts env (hs', st)"
| r_previousStep:
    "reachable opts env (hs, st) \<Longrightarrow> previousStep now hs = (b, hs') \<Longrightarrow>
     reachable opts env (hs', st)"
| r_goToStep:
    "reachable opts env (hs, st) \<Longrightarrow> goToStep opts stp now hs = Inr (b, hs') \<Longrightarrow>
     reachable opts env (hs', st)"
| r_loadDraft:
    "reachable opts env (hs, st) \<Longrightarrow> hook_loadDraft opts env wid now (hs, st) = (b, hs', st') \<Longrightarrow>
     reachable opts env (hs', st')"
| r_saveDraft:
    "reachable opts env (hs, st) \<Longrightarrow> hook_saveDraft opts env now (hs, st) = (b, hs', st') \<Longrightarrow>
     reachable opts env (hs', st')"
| r_reset:
    "reachable opts env (hs, st) \<Longrightarrow> reachable opts env (reset newId now hs, st)"
| r_complete:
    "reachable opts env (hs, st) \<Longrightarrow> complete opts now hs = (b, hs') \<Longrightarrow>
     reachable opts env (hs', st)"

section \<open>Output generation\<close>

text \<open>
  \<open>OutputSpecification\<close>.  The confidence of the summary is a quotient of two counts,
  \<open>None\<close> when it is \<open>NaN\<close> (no question and no answer).
\<close>

record summary =
  sm_text :: jstring
  keyTerms :: "jstring list"
  sm_confidence :: "rat option"

record structured_data =
  purpose_primary :: jstring
  purpose_secondary :: "jstring list option"
  stakeholders_primary :: "jstring list"
  stakeholders_secondary :: "jstring list option"
  requirements_functional :: "jstring list"
  requirements_nonFunctional :: "jstring list"
  constraints :: "jstring list"
  success_criteria :: "jstring list"

record markdown_spec =
  content :: jstring
  wordCount :: nat
  sections :: "jstring list"

record output_specification =
  summary :: summary
  structuredData :: structured_data
  markdownSpec :: markdown_spec

record output_options =
  maxGenerationTime :: int
  enableStructuredDataValidation :: bool

text \<open>\<open>answers[key] || ''\<close>.\<close>

definition or_empty :: "answer_value option \<Rightarrow> answer_value" where
  "or_empty v = (if truthy v then the v else VString [])"

definition summary_suffix :: jstring where
  "summary_suffix =
     [12434, 30446, 30340, 12392, 12375, 12383, 26989, 21209, 25913, 21892, 12471, 12473,
      12486, 12512]"

definition commonTerms :: "jstring list" where
  "commonTerms =
     [[33258, 21205, 21270], [21177, 29575, 21270], [25913, 21892],
      [12471, 12473, 12486, 12512], [12487, 12540, 12479], [31649, 29702], [20966, 29702],
      [20998, 26512], [12524, 12509, 12540, 12488],
      [12480, 12483, 12471, 12517, 12508, 12540, 12489], [36899, 25658]]"

definition summary_text :: "answer_map \<Rightarrow> jstring" where
  "summary_text a =
     (let purpose = or_empty (lookup a ''layer1_purpose'');
          kpi = or_empty (lookup a ''layer1_kpi'');
          summaryText = [];
          summaryText =
            (if truthy (Some purpose) then summaryText @ slice 0 100 (js_String purpose)
             else summaryText);
          summaryText =
            (if truthy (Some kpi) then
               summaryText @
                 (if summaryText \<noteq> [] then ascii '' ('' @ slice 0 50 (js_String kpi) @ ascii '')''
                  else slice 0 100 (js_String kpi))
             else summaryText);
          summaryText =
            (if length summaryText < 50 then summaryText @ summary_suffix else summaryText);
          summaryText =
            (if length summaryText > 500 then slice 0 497 summaryText @ ascii ''...''
             else summaryText)
      in summaryText)"

definition generateSummary :: "wizard_state \<Rightarrow> question_definition list \<Rightarrow> summary" where
  "generateSummary ws qs =
     (let a = answers ws;
          purpose = or_empty (lookup a ''layer1_purpose'');
          kpi = or_empty (lookup a ''layer1_kpi'');
          actors = or_empty (lookup a ''layer2_actors'');
          ui = or_empty (lookup a ''layer3_ui'');
          allText = join [32] (map js_String (filter (\<lambda>v. truthy (Some v)) [purpose, kpi, actors, ui]));
          keyTerms = foldl (\<lambda>ks term. if js_includes term allText \<and> term \<notin> set ks
                                        then ks @ [term] else ks) [] commonTerms;
          totalQuestions = length qs;
          answeredQuestions = length a
      in \<lparr>sm_text = summary_text a,
          keyTerms = keyTerms,
          sm_confidence =
            (if totalQuestions = 0 then (if answeredQuestions = 0 then None else Some 1)
             else Some (min (of_nat answeredQuestions / of_nat totalQuestions) 1))\<rparr>)"

text \<open>\<open>split(/[\<dots>]/)\<close> on a class of separators: the pieces between them.\<close>

fun split_on :: "(nat \<Rightarrow> bool) \<Rightarrow> jstring \<Rightarrow> jstring list" where
  "split_on P [] = [[]]"
| "split_on P (c # cs) =
     (if P c then [] # split_on P cs
      else (case split_on P cs of x # xs \<Rightarrow> (c # x) # xs | [] \<Rightarrow> [[c]]))"

definition split_list :: "answer_value \<Rightarrow> jstring list" where
  "split_list v = map trim (split_on (\<lambda>c. c = 12289 \<or> c = 44) (js_String v))"

definition labelled :: "jstring \<Rightarrow> answer_value option \<Rightarrow> jstring" where
  "labelled l v = (if truthy v then l @ js_String (the v) else [])"

definition nonEmpty :: "jstring list \<Rightarrow> jstring list" where
  "nonEmpty xs = filter (\<lambda>s. s \<noteq> []) xs"

definition generateStructuredData :: "wizard_state \<Rightarrow> structured_data" where
  "generateStructuredData ws =
     (let a = answers ws in
      \<lparr>purpose_primary = js_String (or_empty (lookup a ''layer1_purpose'')),
       purpose_secondary =
         (if truthy (lookup a ''layer1_constraints'')
          then Some [js_String (the (lookup a ''layer1_constraints''))] else None),
       stakeholders_primary =
         (if truthy (lookup a ''layer2_actors'') then split_list (the (lookup a ''layer2_actors''))
          else []),
       stakeholders_secondary =
         (if truthy (lookup a ''layer2_input_data'')
          then Some (split_list (the (lookup a ''layer2_input_data''))) else None),
       requirements_functional =
         nonEmpty
           [labelled [20986, 21147, 58, 32] (lookup a ''layer2_output_data''),
            labelled [85, 73, 58, 32] (lookup a ''layer3_ui''),
            labelled [33258, 21205, 21270, 58, 32] (lookup a ''layer3_automation'')],
       requirements_nonFunctional =
         nonEmpty
           [labelled [24615, 33021, 35201, 20214, 58, 32] (lookup a ''layer1_kpi''),
            labelled [27177, 38480, 31649, 29702, 58, 32] (lookup a ''layer3_permissions'')],
       constraints =
         (if truthy (lookup a ''layer1_constraints'')
          then [js_String (the (lookup a ''layer1_constraints''))] else []),
       success_criteria =
         (if truthy (lookup a ''layer1_success_criteria'')
          then [js_String (the (lookup a ''layer1_success_criteria''))] else [])\<rparr>)"

text \<open>
  \<open>generateMarkdownSpec\<close>.  \<open>generatedAt\<close> is the text of
  \<open>new Date().toLocaleString('ja-JP')\<close>.
\<close>

definition bullet :: "jstring \<Rightarrow> jstring" where
  "bullet s = [45, 32] @ s"

definition markdown_sections ::
  "summary \<Rightarrow> structured_data \<Rightarrow> jstring \<Rightarrow> jstring list" where
  "markdown_sections sm sd generatedAt =
     [[35, 32, 12471, 12473, 12486, 12512, 20181, 27096, 26360],
      [],
      [35, 35, 32, 27010, 35201],
      sm_text sm,
      [],
      [35, 35, 32, 30446, 30340, 12539, 30446, 27161],
      [42, 42, 20027, 35201, 30446, 30340, 58, 42, 42, 32] @ purpose_primary sd,
      [],
      (case purpose_secondary sd of
         None \<Rightarrow> []
       | Some xs \<Rightarrow>
           join [10] (map (\<lambda>s. [42, 42, 21046, 32004, 26465, 20214, 58, 42, 42, 32] @ s) xs)),
      [],
      [35, 35, 32, 38306, 20418, 32773],
      [42, 42, 20027, 35201, 38306, 20418, 32773, 58, 42, 42, 32]
        @ join [12289] (stakeholders_primary sd),
      [],
      (case stakeholders_secondary sd of
         None \<Rightarrow> []
       | Some xs \<Rightarrow>
           if length xs \<noteq> 0
           then [42, 42, 38306, 36899, 12487, 12540, 12479, 58, 42, 42, 32] @ join [12289] xs
           else []),
      [],
      [35, 35, 32, 27231, 33021, 35201, 20214]]
     @ map bullet (requirements_functional sd)
     @ [[],
        [35, 35, 32, 38750, 27231, 33021, 35201, 20214]]
     @ map bullet (requirements_nonFunctional sd)
     @ [[],
        (if length (constraints sd) \<noteq> 0 then [35, 35, 32, 21046, 32004, 26465, 20214] else [])]
     @ map bullet (constraints sd)
     @ [[],
        (if length (success_criteria sd) \<noteq> 0 then [35, 35, 32, 25104, 21151, 22522, 28310]
         else [])]
     @ map bullet (success_criteria sd)
     @ [[],
        ascii ''---'',
        [42, 29983, 25104, 26085, 26178, 58, 32] @ generatedAt @ [42],
        [42, 12461, 12540, 12527, 12540, 12489, 58, 32] @ join [12289] (keyTerms sm) @ [42]]"

definition generateMarkdownSpec ::
  "summary \<Rightarrow> structured_data \<Rightarrow> jstring \<Rightarrow> markdown_spec" where
  "generateMarkdownSpec sm sd generatedAt =
     (let content = join [10] (nonEmpty (markdown_sections sm sd generatedAt));
          wordCount =
            length (trim (filter (\<lambda>c. c \<noteq> 35 \<and> c \<noteq> 42 \<and> c \<noteq> 45 \<and> c \<noteq> 10) content));
          sectionNames =
            [[27010, 35201], [30446, 30340, 12539, 30446, 27161], [38306, 20418, 32773],
             [27231, 33021, 35201, 20214], [38750, 27231, 33021, 35201, 20214]]
            @ (if length (constraints sd) > 0 then [[21046, 32004, 26465, 20214]] else [])
            @ (if length (success_criteria sd) > 0 then [[25104, 21151, 22522, 28310]] else [])
      in \<lparr>content = content, wordCount = wordCount, sections = sectionNames\<rparr>)"

definition validateOutputStructure :: "output_specification \<Rightarrow> bool" where
  "validateOutputStructure output =
     (if sm_text (summary output) = [] \<or> length (sm_text (summary output)) < 50 \<or>
         length (sm_text (summary output)) > 500 then False
      else if purpose_primary (structuredData output) = [] then False
      else if content (markdownSpec output) = [] \<or> wordCount (markdownSpec output) < 100 then False
      else True)"

text \<open>
  \<open>generateOutput\<close>.  \<open>startTime\<close> and \<open>endTime\<close> are the two readings of the clock.
  Every exception is caught by the hook: it stores the message and returns \<open>null\<close>,
  which is \<open>Inl\<close> here.
\<close>

definition generateOutput ::
  "output_options \<Rightarrow> int \<Rightarrow> int \<Rightarrow> jstring \<Rightarrow> wizard_state \<Rightarrow> question_definition list \<Rightarrow>
   js_error + output_specification" where
  "generateOutput oo startTime endTime generatedAt ws qs =
     (if \<not> isComplete ws then Inl (Error ''Wizard must be completed before generating output'')
      else if length (answers ws) < 12
      then Inl (Error ''Insufficient answers provided (minimum 12 required)'')
      else
        (let sm = generateSummary ws qs;
             sd = generateStructuredData ws;
             md = generateMarkdownSpec sm sd generatedAt;
             output = \<lparr>summary = sm, structuredData = sd, markdownSpec = md\<rparr>
         in if enableStructuredDataValidation oo \<and> \<not> validateOutputStructure output
            then Inl (Error ''Generated output failed validation'')
            else if \<not> validateOutputGenerationTime startTime endTime
            then Inl (ConstitutionalViolationError ''outputGenerationTime'')
            else Inr output))"

text \<open>
  The populated fields of an answer map: the entries whose value is not empty, as
  \<open>validateRequired\<close> reads it.  \<open>generateOutput\<close> itself counts the keys.
\<close>

definition populated :: "answer_map \<Rightarrow> answer_map" where
  "populated a = filter (\<lambda>(k, v). validateRequired (Some v)) a"

text \<open>The invariant of the wizard state: the step is in range and the layer is the one
  derived from it.\<close>

definition layer_invariant :: "wizard_state \<Rightarrow> bool" where
  "layer_invariant ws \<longleftrightarrow>
     1 \<le> currentStep ws \<and> currentStep ws \<le> 15 \<and>
     currentLayer ws = getLayerFromStep (currentStep ws)"

section \<open>Sample inputs\<close>

text \<open>A one-question catalogue, the options the hook defaults to, and a few states.\<close>

definition demo_question :: question_definition where
  "demo_question =
     \<lparr>qid = ''layer1_purpose'', layer = 1, step = 1, qtype = LongText, required = True,
      minLength = None, maxLength = None, pattern = None, options = None, dependsOn = None,
      showIf = None\<rparr>"

definition demo_options :: wizard_options where
  "demo_options =
     \<lparr>autoSave = True, autoSaveInterval = 2000, enableDrafts = True,
      questions = [demo_question]\<rparr>"

text \<open>The same options with an auto-save interval of one second.\<close>

definition slow_options :: wizard_options where
  "slow_options = demo_options\<lparr>autoSaveInterval := 1000\<rparr>"

definition hidden_question :: question_definition where
  "hidden_question = demo_question\<lparr>showIf := Some (\<lambda>a. False)\<rparr>"

definition at_last_step :: hook_state where
  "at_last_step =
     (initial_state ''w1'' 0)\<lparr>wizardState :=
        (new_session ''w1'' 0)\<lparr>currentStep := 15, currentLayer := 3\<rparr>\<rparr>"

definition after_jump :: hook_state where
  "after_jump =
     (initial_state ''w1'' 0)\<lparr>wizardState :=
        (new_session ''w1'' 0)\<lparr>currentStep := 7, currentLayer := 2, lastModified := Date 5\<rparr>\<rparr>"

definition demo_env :: storage_env where
  "demo_env =
     \<lparr>render_state = (\<lambda>ws. ascii ''{}''), render_draft = (\<lambda>d. ascii ''{}''),
      sha256 = (\<lambda>s. ''sha256-00'')\<rparr>"

text \<open>A catalogue of fifteen required text questions, five per layer.\<close>

definition text_question :: "string \<Rightarrow> int \<Rightarrow> int \<Rightarrow> question_definition" where
  "text_question i l s =
     \<lparr>qid = i, layer = l, step = s, qtype = LongText, required = True,
      minLength = None, maxLength = None, pattern = None, options = None, dependsOn = None,
      showIf = None\<rparr>"

definition catalogue :: "question_definition list" where
  "catalogue =
     [text_question ''layer1_purpose'' 1 1,
      text_question ''layer1_kpi'' 1 2,
      text_question ''layer1_constraints'' 1 3,
      text_question ''layer1_success_criteria'' 1 4,
      text_question ''layer1_target'' 1 5,
      text_question ''layer2_actors'' 2 6,
      text_question ''layer2_input_data'' 2 7,
      text_question ''layer2_output_data'' 2 8,
      text_question ''layer2_triggers'' 2 9,
      text_question ''layer2_as_is'' 2 10,
      text_question ''layer3_ui'' 3 11,
      text_question ''layer3_automation'' 3 12,
      text_question ''layer3_google_integration'' 3 13,
      text_question ''layer3_permissions'' 3 14,
      text_question ''layer3_exceptions'' 3 15]"

definition catalogue_options :: wizard_options where
  "catalogue_options =
     \<lparr>autoSave = True, autoSaveInterval = 2000, enableDrafts = True, questions = catalogue\<rparr>"

definition default_output_options :: output_options where
  "default_output_options = \<lparr>maxGenerationTime = 5000, enableStructuredDataValidation = True\<rparr>"

text \<open>Fifteen valid answers; the purpose and the expected effect are short.\<close>

definition short_answers :: answer_map where
  "short_answers =
     [(''layer1_purpose'', VString (ascii ''Automate reports'')),
      (''layer1_kpi'', VString (ascii ''50% faster'')),
      (''layer1_constraints'', VString (ascii ''none'')),
      (''layer1_success_criteria'', VString (ascii ''fewer errors'')),
      (''layer1_target'', VString (ascii ''sales team'')),
      (''layer2_actors'', VString (ascii ''sales, finance'')),
      (''layer2_input_data'', VString (ascii ''orders'')),
      (''layer2_output_data'', VString (ascii ''monthly report'')),
      (''layer2_triggers'', VString (ascii ''month end'')),
      (''layer2_as_is'', VString (ascii ''spreadsheets'')),
      (''layer3_ui'', VString (ascii ''web form'')),
      (''layer3_automation'', VString (ascii ''scheduled export'')),
      (''layer3_google_integration'', VString (ascii ''sheets'')),
      (''layer3_permissions'', VString (ascii ''managers only'')),
      (''layer3_exceptions'', VString (ascii ''manual override''))]"

definition answered_all :: hook_state where
  "answered_all =
     (initial_state ''w1'' 0)\<lparr>wizardState :=
        (new_session ''w1'' 0)\<lparr>currentStep := 15, currentLayer := 3,
           answers := short_answers\<rparr>\<rparr>"

definition short_session :: wizard_state where
  "short_session = (wizardState answered_all)\<lparr>isComplete := True, lastModified := Date 9\<rparr>"

text \<open>The same answers with a longer purpose.\<close>

definition long_purpose :: jstring where
  "long_purpose =
     ascii (''Automate the monthly sales reports for every regional office and share '' @
            ''the consolidated figures with the finance department every month'')"

definition long_session :: wizard_state where
  "long_session =
     short_session\<lparr>answers :=
        AList.update ''layer1_purpose'' (VString long_purpose) short_answers\<rparr>"

text \<open>
  A session in which twelve fields were filled in and all but the purpose cleared again,
  on a catalogue where only the purpose is required.
\<close>

definition sparse_answers :: answer_map where
  "sparse_answers =
     [(''layer1_purpose'', VString long_purpose),
      (''layer1_kpi'', VString []),
      (''layer1_constraints'', VString []),
      (''layer1_success_criteria'', VString []),
      (''layer1_target'', VString []),
      (''layer2_actors'', VString []),
      (''layer2_input_data'', VString []),
      (''layer2_output_data'', VString []),
      (''layer2_triggers'', VString []),
      (''layer2_as_is'', VString []),
      (''layer3_ui'', VString []),
      (''layer3_automation'', VString [])]"

definition sparse_catalogue :: "question_definition list" where
  "sparse_catalogue = map (\<lambda>q. q\<lparr>required := (qid q = ''layer1_purpose'')\<rparr>) catalogue"

definition sparse_options :: wizard_options where
  "sparse_options = catalogue_options\<lparr>questions := sparse_catalogue\<rparr>"

definition sparse_hook :: hook_state where
  "sparse_hook =
     (initial_state ''w1'' 0)\<lparr>wizardState :=
        (new_session ''w1'' 0)\<lparr>currentStep := 15, currentLayer := 3,
           answers := sparse_answers\<rparr>\<rparr>"

definition sparse_session :: wizard_state where
  "sparse_session = (wizardState sparse_hook)\<lparr>isComplete := True, lastModified := Date 9\<rparr>"

definition contact_text :: jstring where
  "contact_text = ascii ''contact me at test@example.com''"

definition digits_text :: jstring where
  "digits_text = ascii ''1234567890123456''"





definition plain_store :: local_storage where
  "plain_store = [(''wizard-draft-w1'', DraftJSON (draft_of demo_env ''w1'' (new_session ''w1'' 0) 0))]"

definition draft_a :: draft_storage where
  "draft_a = draft_of demo_env ''a'' (new_session ''a'' 0) 0"

definition draft_b :: draft_storage where
  "draft_b = draft_of demo_env ''b'' (new_session ''b'' 1000) 1000"

definition draft_c :: draft_storage where
  "draft_c = draft_of demo_env ''c'' (new_session ''c'' 90000000) 90000000"

definition two_expired :: local_storage where
  "two_expired = [(''wizard-draft-a'', DraftJSON draft_a), (''wizard-draft-b'', DraftJSON draft_b)]"

definition expired_then_fresh :: local_storage where
  "expired_then_fresh =
     [(''wizard-draft-a'', DraftJSON draft_a), (''wizard-draft-c'', DraftJSON draft_c)]"

definition generatedAt_sample :: jstring where
  "generatedAt_sample = ascii ''2025/9/6 12:00:00''"

section \<open>Properties of the validator\<close>

lemmas sample_defs = catalogue_def text_question_def catalogue_options_def short_answers_def
  answered_all_def short_session_def long_session_def initial_state_def new_session_def
  default_output_options_def

text \<open>
  C8.  A question whose \<open>showIf\<close> predicate is false over the answer map should get no
  error, whatever the other checks say.  The source returns early when the value is
  absent, before it looks at \<open>showIf\<close>: a required question that is hidden and has no
  answer still gets the error \<open>REQUIRED\<close>.
\<close>

theorem validateAnswer_hidden_required_unanswered:
  "hidden hidden_question (Some []) \<and>
   validateAnswer hidden_question None (Some []) =
     [\<lparr>field = ''layer1_purpose'', message = ''validation.required'', code = ''REQUIRED''\<rparr>]"
  by (simp add: hidden_def hidden_question_def demo_question_def validateAnswer_def mk_error_def)

text \<open>What does hold: a hidden question whose value is present gets no error.\<close>

lemma validateAnswer_hidden_answered:
  "hidden q a \<Longrightarrow> validateRequired v \<Longrightarrow> validateAnswer q v a = []"
  by (simp add: validateAnswer_def Let_def)

section \<open>Properties of the wizard\<close>

text \<open>
  C2.  When the question bound to the current step has a validation error,
  \<open>nextStep\<close> throws nothing and answers \<open>false\<close>; the wizard state (step, layer,
  answers) is the one before the call, and the errors of the question are stored under
  its id in the validation-error map.  A required question without an answer always has
  such an error.
\<close>

theorem nextStep_refuses_invalid_step:
  assumes "find (\<lambda>q. step q = currentStep (wizardState hs)) (questions opts) = Some q"
    and "errors = validateAnswer q (lookup (answers (wizardState hs)) (qid q))
                    (Some (answers (wizardState hs)))"
  shows "(errors \<noteq> [] \<longrightarrow>
            nextStep opts now hs =
              Inr (False,
                   hs\<lparr>validationErrors := AList.update (qid q) errors (validationErrors hs)\<rparr>) \<and>
            lookup (AList.update (qid q) errors (validationErrors hs)) (qid q) = Some errors)
         \<and> (required q \<and> \<not> validateRequired (lookup (answers (wizardState hs)) (qid q))
              \<longrightarrow> errors \<noteq> [])"
  using assms by (auto simp: nextStep_def Let_def validateAnswer_def lookup_def update_conv)

theorem nextStep_refuses_invalid_step_witness:
  "nextStep demo_options 5 (initial_state ''w1'' 0) =
     Inr (False,
          (initial_state ''w1'' 0)\<lparr>validationErrors :=
             [(''layer1_purpose'',
               [\<lparr>field = ''layer1_purpose'', message = ''validation.required'',
                 code = ''REQUIRED''\<rparr>])]\<rparr>)"
  using nextStep_refuses_invalid_step [of "initial_state ''w1'' 0" demo_options demo_question
     "[\<lparr>field = ''layer1_purpose'', message = ''validation.required'', code = ''REQUIRED''\<rparr>]" 5]
  by (simp add: demo_options_def demo_question_def initial_state_def new_session_def
      validateAnswer_def mk_error_def lookup_def)

lemma layer_of_step_valid:
  "1 \<le> s \<Longrightarrow> s \<le> 15 \<Longrightarrow> validateLayerProgression s (getLayerFromStep s) = Inr True"
  by (auto simp: validateLayerProgression_def getLayerFromStep_def layerRanges_def)

lemma compliance_passes:
  "1 \<le> currentStep s \<Longrightarrow> currentStep s \<le> 15 \<Longrightarrow>
   currentLayer s = getLayerFromStep (currentStep s) \<Longrightarrow>
   autoSave opts \<longrightarrow> autoSaveInterval opts = 2000 \<Longrightarrow>
   validateConstitutionalCompliance opts s = None"
  by (auto simp: validateConstitutionalCompliance_def layer_of_step_valid
      validateAutoSaveInterval_def)

lemma nextStep_at_15:
  "currentStep (wizardState hs) = 15 \<Longrightarrow>
   \<exists>hs'. nextStep opts now hs = Inr (False, hs') \<and> wizardState hs' = wizardState hs"
  by (auto simp: nextStep_def Let_def split: option.splits)

lemma nextStep_at_15_valid:
  "currentStep (wizardState hs) = 15 \<Longrightarrow>
   \<forall>q. find (\<lambda>q. step q = 15) (questions opts) = Some q \<longrightarrow>
       validateAnswer q (lookup (answers (wizardState hs)) (qid q))
         (Some (answers (wizardState hs))) = [] \<Longrightarrow>
   nextStep opts now hs = Inr (False, hs)"
  by (auto simp: nextStep_def Let_def split: option.splits)

lemma nextStep_le_15:
  "currentStep (wizardState hs) \<le> 15 \<Longrightarrow> nextStep opts now hs = Inr (b, hs') \<Longrightarrow>
   currentStep (wizardState hs') \<le> 15"
  by (auto simp: nextStep_def Let_def split: option.splits if_splits)

lemma previousStep_at_1:
  "currentStep (wizardState hs) = 1 \<Longrightarrow> previousStep now hs = (False, hs)"
  by (simp add: previousStep_def)

lemma previousStep_ge_1:
  "1 \<le> currentStep (wizardState hs) \<Longrightarrow> previousStep now hs = (b, hs') \<Longrightarrow>
   1 \<le> currentStep (wizardState hs')"
  by (auto simp: previousStep_def Let_def split: if_splits)

lemma goToStep_out_of_range:
  "stp < 1 \<or> stp > 15 \<Longrightarrow> goToStep opts stp now hs = Inr (False, hs)"
  by (auto simp: goToStep_def)

lemma goToStep_in_range:
  "1 \<le> stp \<Longrightarrow> stp \<le> 15 \<Longrightarrow> autoSave opts \<longrightarrow> autoSaveInterval opts = 2000 \<Longrightarrow>
   goToStep opts stp now hs =
     Inr (True,
          hs\<lparr>wizardState := (wizardState hs)\<lparr>currentStep := stp,
                currentLayer := getLayerFromStep stp, lastModified := Date now,
                draftSaved := False\<rparr>\<rparr>)"
  by (simp add: goToStep_def Let_def compliance_passes)

text \<open>With auto-save on and another interval the compliance check of the hook throws, as
  it does in \<open>setAnswer\<close> and in an advancing \<open>nextStep\<close>; the state stays as it was.\<close>

lemma goToStep_interval_guard:
  "1 \<le> stp \<Longrightarrow> stp \<le> 15 \<Longrightarrow> autoSave opts \<Longrightarrow> autoSaveInterval opts \<noteq> 2000 \<Longrightarrow>
   goToStep opts stp now hs = Inl (ConstitutionalViolationError ''autoSaveInterval'')"
  by (simp add: goToStep_def Let_def validateConstitutionalCompliance_def layer_of_step_valid
      validateAutoSaveInterval_def)

lemma last_question_valid:
  "\<forall>q. find (\<lambda>q. step q = 15) (questions catalogue_options) = Some q \<longrightarrow>
       validateAnswer q (lookup (answers (wizardState answered_all)) (qid q))
         (Some (answers (wizardState answered_all))) = []"
  by (simp add: sample_defs validateAnswer_def lookup_def trim_def ascii_def
      isWhiteSpace_def length_errors_def nonzero_def pattern_errors_def type_errors_def
      dependency_errors_def hidden_def)

text \<open>
  C3, as amended.  \<open>nextStep\<close> at step 15 answers \<open>false\<close> and leaves the wizard state alone
  (the whole hook state when the question of step 15 has no error); \<open>previousStep\<close> at
  step 1 answers \<open>false\<close> and changes nothing; neither moves the step out of 1..15.
  \<open>goToStep\<close> outside 1..15 answers \<open>false\<close> and changes nothing.  Inside 1..15 it sets
  the step and the layer derived from it and reads neither the questions nor the
  answers, provided the options of the hook pass its compliance check: auto-save is off,
  or its interval is the fixed 2000 ms.
\<close>

theorem step_bounds_and_goToStep:
  "(currentStep (wizardState hs) = 15 \<longrightarrow>
      (\<exists>hs'. nextStep opts now hs = Inr (False, hs') \<and> wizardState hs' = wizardState hs)) \<and>
   (currentStep (wizardState hs) = 15 \<and>
      (\<forall>q. find (\<lambda>q. step q = 15) (questions opts) = Some q \<longrightarrow>
         validateAnswer q (lookup (answers (wizardState hs)) (qid q))
           (Some (answers (wizardState hs))) = [])
      \<longrightarrow> nextStep opts now hs = Inr (False, hs)) \<and>
   (currentStep (wizardState hs) \<le> 15 \<and> nextStep opts now hs = Inr (b, hs')
      \<longrightarrow> currentStep (wizardState hs') \<le> 15) \<and>
   (currentStep (wizardState hs) = 1 \<longrightarrow> previousStep now hs = (False, hs)) \<and>
   (1 \<le> currentStep (wizardState hs) \<and> previousStep now hs = (b, hs')
      \<longrightarrow> 1 \<le> currentStep (wizardState hs')) \<and>
   (stp < 1 \<or> stp > 15 \<longrightarrow> goToStep opts stp now hs = Inr (False, hs)) \<and>
   (1 \<le> stp \<and> stp \<le> 15 \<and> (autoSave opts \<longrightarrow> autoSaveInterval opts = 2000) \<longrightarrow>
      goToStep opts stp now hs =
        Inr (True,
             hs\<lparr>wizardState := (wizardState hs)\<lparr>currentStep := stp,
                   currentLayer := getLayerFromStep stp, lastModified := Date now,
                   draftSaved := False\<rparr>\<rparr>))"
  using nextStep_at_15 [of hs opts now] nextStep_at_15_valid [of hs opts now]
    nextStep_le_15 [of hs opts now b hs'] previousStep_at_1 [of hs now]
    previousStep_ge_1 [of hs now b hs'] goToStep_out_of_range [of stp opts now hs]
    goToStep_in_range [of stp opts now hs]
  by blast

theorem step_bounds_and_goToStep_witness:
  "find (\<lambda>q. step q = 15) (questions catalogue_options) =
     Some (text_question ''layer3_exceptions'' 3 15) \<and>
   nextStep catalogue_options 5 answered_all = Inr (False, answered_all) \<and>
   previousStep 5 (initial_state ''w1'' 0) = (False, initial_state ''w1'' 0) \<and>
   goToStep demo_options 16 5 (initial_state ''w1'' 0) = Inr (False, initial_state ''w1'' 0) \<and>
   goToStep demo_options 7 5 (initial_state ''w1'' 0) =
     Inr (True,
          (initial_state ''w1'' 0)\<lparr>wizardState :=
             (new_session ''w1'' 0)\<lparr>currentStep := 7, currentLayer := 2,
                lastModified := Date 5\<rparr>\<rparr>)"
  using step_bounds_and_goToStep [where hs = answered_all and opts = catalogue_options and now = 5]
    step_bounds_and_goToStep [where hs = "initial_state ''w1'' 0" and opts = demo_options
      and now = 5 and stp = 16]
    step_bounds_and_goToStep [where hs = "initial_state ''w1'' 0" and opts = demo_options
      and now = 5 and stp = 7]
    last_question_valid
  by (simp add: sample_defs demo_options_def demo_question_def getLayerFromStep_def)

text \<open>
  C3, as stated, fails: with auto-save on and an interval of one second, which the hook
  accepts as an option, \<open>goToStep 7\<close> from step 1 does not jump.  The compliance check inside
  the update throws, and the session stays at step 1.
\<close>

theorem goToStep_blocked_by_interval:
  "goToStep slow_options 7 5 (initial_state ''w1'' 0) =
     Inl (ConstitutionalViolationError ''autoSaveInterval'')"
  by (simp add: goToStep_def Let_def slow_options_def demo_options_def initial_state_def
      new_session_def getLayerFromStep_def validateConstitutionalCompliance_def
      validateLayerProgression_def layerRanges_def validateAutoSaveInterval_def)

lemma validateLayerProgression_true:
  "validateLayerProgression s l = Inr True \<Longrightarrow> 1 \<le> s \<and> s \<le> 15 \<and> l = getLayerFromStep s"
  by (auto simp: validateLayerProgression_def getLayerFromStep_def layerRanges_def
      split: if_splits)

lemma compliance_invariant:
  "validateConstitutionalCompliance opts ws = None \<Longrightarrow> layer_invariant ws"
  using validateLayerProgression_true [of "currentStep ws" "currentLayer ws"]
  by (auto simp: validateConstitutionalCompliance_def layer_invariant_def
      split: sum.splits if_splits)

lemma setAnswer_invariant:
  "layer_invariant (wizardState hs) \<Longrightarrow> setAnswer opts k v now hs = Inr hs' \<Longrightarrow>
   layer_invariant (wizardState hs')"
  by (auto simp: setAnswer_def Let_def layer_invariant_def split: option.splits)

lemma nextStep_invariant:
  "layer_invariant (wizardState hs) \<Longrightarrow> nextStep opts now hs = Inr (b, hs') \<Longrightarrow>
   layer_invariant (wizardState hs')"
  by (auto simp: nextStep_def Let_def layer_invariant_def split: option.splits if_splits)

lemma previousStep_invariant:
  "layer_invariant (wizardState hs) \<Longrightarrow> previousStep now hs = (b, hs') \<Longrightarrow>
   layer_invariant (wizardState hs')"
  by (auto simp: previousStep_def Let_def layer_invariant_def split: if_splits)

lemma goToStep_invariant:
  "layer_invariant (wizardState hs) \<Longrightarrow> goToStep opts stp now hs = Inr (b, hs') \<Longrightarrow>
   layer_invariant (wizardState hs')"
  by (auto simp: goToStep_def Let_def layer_invariant_def split: option.splits if_splits)

lemma hook_loadDraft_invariant:
  "layer_invariant (wizardState hs) \<Longrightarrow>
   hook_loadDraft opts env wid now (hs, st) = (b, hs', st') \<Longrightarrow>
   layer_invariant (wizardState hs')"
  by (auto simp: hook_loadDraft_def Let_def dest: compliance_invariant
      split: option.splits if_splits sum.splits prod.splits)

lemma hook_saveDraft_invariant:
  "layer_invariant (wizardState hs) \<Longrightarrow>
   hook_saveDraft opts env now (hs, st) = (b, hs', st') \<Longrightarrow>
   layer_invariant (wizardState hs')"
  by (auto simp: hook_saveDraft_def Let_def layer_invariant_def
      split: if_splits sum.splits prod.splits)

lemma reset_invariant: "layer_invariant (wizardState (reset newId now hs))"
  by (simp add: reset_def new_session_def layer_invariant_def getLayerFromStep_def)

lemma complete_invariant:
  "layer_invariant (wizardState hs) \<Longrightarrow> complete opts now hs = (b, hs') \<Longrightarrow>
   layer_invariant (wizardState hs')"
  by (auto simp: complete_def Let_def layer_invariant_def split: if_splits)

lemma reachable_invariant: "reachable opts env w \<Longrightarrow> layer_invariant (wizardState (fst w))"
proof (induction rule: reachable.induct)
  case (r_init newId now st)
  then show ?case
    by (simp add: initial_state_def new_session_def layer_invariant_def getLayerFromStep_def)
qed (auto intro: setAnswer_invariant nextStep_invariant previousStep_invariant
      goToStep_invariant hook_loadDraft_invariant hook_saveDraft_invariant reset_invariant
      complete_invariant)

lemma reachable_after_jump: "reachable demo_options demo_env (after_jump, [])"
proof -
  have "reachable demo_options demo_env (initial_state ''w1'' 0, [])"
    by (rule r_init)
  moreover have "goToStep demo_options 7 5 (initial_state ''w1'' 0) = Inr (True, after_jump)"
    by (simp add: goToStep_in_range demo_options_def after_jump_def initial_state_def
        new_session_def getLayerFromStep_def)
  ultimately show ?thesis by (rule r_goToStep)
qed

text \<open>
  C1.  The layer derived from a step is 1 for the steps 1 to 5, 2 for 6 to 10 and 3 for
  11 to 15.  In every state the hook can reach through \<open>setAnswer\<close>, \<open>nextStep\<close>,
  \<open>previousStep\<close>, \<open>goToStep\<close>, \<open>loadDraft\<close>, \<open>saveDraft\<close>, \<open>reset\<close> and \<open>complete\<close>,
  over any content of the storage, the step is within 1..15 and the layer is the one
  derived from the step; the pair passes \<open>validateLayerProgression\<close>.
\<close>

theorem layer_follows_step:
  "(1 \<le> s \<and> s \<le> 5 \<longrightarrow> getLayerFromStep s = 1) \<and>
   (6 \<le> s \<and> s \<le> 10 \<longrightarrow> getLayerFromStep s = 2) \<and>
   (11 \<le> s \<and> s \<le> 15 \<longrightarrow> getLayerFromStep s = 3) \<and>
   (reachable opts env (hs, st) \<longrightarrow>
      currentLayer (wizardState hs) = getLayerFromStep (currentStep (wizardState hs)) \<and>
      1 \<le> currentStep (wizardState hs) \<and> currentStep (wizardState hs) \<le> 15 \<and>
      validateLayerProgression (currentStep (wizardState hs)) (currentLayer (wizardState hs))
        = Inr True)"
  using reachable_invariant [of opts env "(hs, st)"]
    layer_of_step_valid [of "currentStep (wizardState hs)"]
  by (auto simp: getLayerFromStep_def layer_invariant_def)

theorem layer_follows_step_witness:
  "getLayerFromStep 3 = 1 \<and> getLayerFromStep 8 = 2 \<and> getLayerFromStep 13 = 3 \<and>
   reachable demo_options demo_env (after_jump, []) \<and>
   currentStep (wizardState after_jump) = 7 \<and> currentLayer (wizardState after_jump) = 2 \<and>
   currentLayer (wizardState after_jump) = getLayerFromStep (currentStep (wizardState after_jump))"
  using layer_follows_step [of 3 demo_options demo_env after_jump "[]"]
    layer_follows_step [of 8 demo_options demo_env after_jump "[]"]
    layer_follows_step [of 13 demo_options demo_env after_jump "[]"]
    reachable_after_jump
  by (simp add: after_jump_def)

section \<open>Properties of the detection of personal information\<close>

lemma ends_bounds:
  "i \<le> length t \<Longrightarrow> j \<in> set (ends r t i) \<Longrightarrow> i + minlen r \<le> j \<and> j \<le> length t"
proof (induction r t i arbitrary: j rule: ends.induct)
  case (1 P t i)
  then show ?case by (auto split: if_splits)
next
  case (2 t i)
  then show ?case by simp
next
  case (3 r s t i)
  from "3.prems"(2) obtain k where k: "k \<in> set (ends r t i)" "j \<in> set (ends s t k)"
    by auto
  from "3.IH"(1) [OF "3.prems"(1) k(1)] have "i + minlen r \<le> k" "k \<le> length t" by auto
  moreover from "3.IH"(2) [OF k(1) \<open>k \<le> length t\<close> k(2)] have "k + minlen s \<le> j" "j \<le> length t" by auto
  ultimately show ?case by simp
next
  case (4 r s t i)
  from "4.prems"(2) have "j \<in> set (ends r t i) \<or> j \<in> set (ends s t i)" by simp
  then show ?case
  proof
    assume "j \<in> set (ends r t i)"
    from "4.IH"(1) [OF "4.prems"(1) this] show ?thesis by (simp add: min_def)
  next
    assume "j \<in> set (ends s t i)"
    from "4.IH"(2) [OF "4.prems"(1) this] show ?thesis by (simp add: min_def)
  qed
next
  case (5 r t i)
  from "5.prems"(2) consider "j = i"
    | k where "k \<in> set (ends r t i)" "i < k" "k \<le> length t" "j \<in> set (ends (Star r) t k)"
    by (subst (asm) ends.simps(5)) (auto split: if_splits)
  then show ?case
  proof cases
    case 1
    with "5.prems" show ?thesis by simp
  next
    case 2
    from "5.IH"(2) [of k j] 2 show ?thesis by auto
  qed
next
  case (6 t i)
  then show ?case by (auto split: if_splits)
qed



lemma rx_search_end: "length t < i \<Longrightarrow> rx_search r t i = None"
  by (subst rx_search.simps) simp

lemma rx_search_hit:
  "i \<le> length t \<Longrightarrow> ends r t i = e # es \<Longrightarrow> rx_search r t i = Some (i, e)"
  by (subst rx_search.simps) simp

lemma rx_search_miss:
  "i \<le> length t \<Longrightarrow> ends r t i = [] \<Longrightarrow> rx_search r t i = rx_search r t (Suc i)"
  by (subst rx_search.simps) simp

lemma rx_search_Some:
  "rx_search r t i = Some (s, e) \<Longrightarrow> i \<le> s \<and> s \<le> length t \<and> e \<in> set (ends r t s)"
proof (induction "Suc (length t) - i" arbitrary: i)
  case 0
  then have "length t < i" by simp
  with "0.prems" show ?case by (simp add: rx_search_end)
next
  case (Suc n)
  then have le: "i \<le> length t" by simp
  show ?case
  proof (cases "ends r t i")
    case Nil
    with le Suc.prems have "rx_search r t (Suc i) = Some (s, e)"
      by (simp add: rx_search_miss)
    moreover from Suc.hyps(2) have "n = Suc (length t) - Suc i" by simp
    ultimately have "Suc i \<le> s \<and> s \<le> length t \<and> e \<in> set (ends r t s)"
      using Suc.hyps(1) by blast
    then show ?thesis by simp
  next
    case (Cons e' es)
    with le Suc.prems have "s = i \<and> e = e'" by (simp add: rx_search_hit)
    with Cons le show ?thesis by simp
  qed
qed

lemma rx_search_None:
  "rx_search r t i = None \<Longrightarrow> i \<le> k \<Longrightarrow> k \<le> length t \<Longrightarrow> ends r t k = []"
proof (induction "Suc (length t) - i" arbitrary: i)
  case 0
  then show ?case by simp
next
  case (Suc n)
  then have le: "i \<le> length t" by simp
  show ?case
  proof (cases "ends r t i")
    case Nil
    show ?thesis
    proof (cases "k = i")
      case True
      with Nil show ?thesis by simp
    next
      case False
      with Suc.prems have "Suc i \<le> k" by simp
      moreover from Nil le Suc.prems have "rx_search r t (Suc i) = None"
        by (simp add: rx_search_miss)
      moreover from Suc.hyps(2) have "n = Suc (length t) - Suc i" by simp
      ultimately show ?thesis using Suc.hyps(1) Suc.prems(3) by blast
    qed
  next
    case (Cons e' es)
    with le Suc.prems show ?thesis by (simp add: rx_search_hit)
  qed
qed

lemma rx_search_found:
  "i \<le> k \<Longrightarrow> k \<le> length t \<Longrightarrow> ends r t k \<noteq> [] \<Longrightarrow> rx_search r t i \<noteq> None"
  using rx_search_None by blast

lemma rx_search_progress:
  assumes "0 < minlen r" and "rx_search r t i = Some (s, e)"
  shows "i < e \<and> e \<le> length t"
  using rx_search_Some [OF assms(2)] ends_bounds [of s t e r] assms(1) by auto


lemma set_add_idem: "set_add x (set_add x xs) = set_add x xs"
  by (simp add: set_add_def)

lemma set_set_add: "set (set_add x xs) = insert x (set xs)"
  by (auto simp: set_add_def)


lemma rx_test_iff: "rx_test r t \<longleftrightarrow> (\<exists>k \<le> length t. ends r t k \<noteq> [])"
proof
  assume "rx_test r t"
  then obtain s e where "rx_search r t 0 = Some (s, e)" by (auto simp: rx_test_def)
  from rx_search_Some [OF this] show "\<exists>k \<le> length t. ends r t k \<noteq> []" by auto
next
  assume "\<exists>k \<le> length t. ends r t k \<noteq> []"
  then obtain k where "k \<le> length t" "ends r t k \<noteq> []" by blast
  from rx_search_found [of 0 k t r] this show "rx_test r t" by (simp add: rx_test_def)
qed

lemma matches_from_None: "rx_search r t i = None \<Longrightarrow> matches_from r t i = []"
  by (subst matches_from.simps) simp

lemma matches_from_Some:
  "rx_search r t i = Some (s, e) \<Longrightarrow> i < e \<Longrightarrow> e \<le> length t \<Longrightarrow>
   matches_from r t i = (s, e) # matches_from r t e"
  by (subst matches_from.simps) simp

lemma matches_from_empty: "matches_from r t i = [] \<longleftrightarrow> rx_search r t i = None"
  by (subst matches_from.simps) (auto split: option.splits)

text \<open>Every match that is listed is a match of the pattern: it starts at or after the
  position of the search and ends where the matcher first succeeds from its start.\<close>

lemma matches_from_sound:
  "(s, e) \<in> set (matches_from r t i) \<Longrightarrow>
   i \<le> s \<and> s \<le> length t \<and> ends r t s \<noteq> [] \<and> e = hd (ends r t s)"
proof (induction r t i rule: matches_from.induct)
  case (1 r t i)
  show ?case
  proof (cases "rx_search r t i")
    case None
    with "1.prems" show ?thesis by (simp add: matches_from_None)
  next
    case (Some p)
    obtain s' e' where p: "p = (s', e')" by (cases p)
    from rx_search_Some [OF Some [unfolded p]]
    have b: "i \<le> s'" "s' \<le> length t" "e' \<in> set (ends r t s')" by auto
    have first: "e' = hd (ends r t s')"
    proof (cases "ends r t s'")
      case Nil
      with b(3) show ?thesis by simp
    next
      case (Cons x xs)
      with b(2) have "rx_search r t s' = Some (s', x)" by (simp add: rx_search_hit)
      moreover have "rx_search r t s' = Some (s', e')"
        using Some p b(1) b(2)
      proof (induction "s' - i" arbitrary: i)
        case 0
        then show ?case by simp
      next
        case (Suc n)
        then have lt: "i < s'" by simp
        have "ends r t i = []"
        proof (rule ccontr)
          assume "ends r t i \<noteq> []"
          then obtain y ys where "ends r t i = y # ys" by (cases "ends r t i") auto
          with Suc.prems lt have "rx_search r t i = Some (i, y)" by (simp add: rx_search_hit)
          with Suc.prems lt show False by simp
        qed
        with Suc.prems lt have "rx_search r t (Suc i) = Some p" by (simp add: rx_search_miss)
        moreover from Suc.hyps(2) have "n = s' - Suc i" by simp
        ultimately show ?case using Suc.hyps(1) Suc.prems lt by simp
      qed
      ultimately show ?thesis using Cons by simp
    qed
    show ?thesis
    proof (cases "i < e' \<and> e' \<le> length t")
      case True
      with Some p have eq: "matches_from r t i = (s', e') # matches_from r t e'"
        by (simp add: matches_from_Some)
      from "1.prems" [unfolded eq] consider "(s, e) = (s', e')" | "(s, e) \<in> set (matches_from r t e')"
        by auto
      then show ?thesis
      proof cases
        case 1
        with b first show ?thesis by auto
      next
        case 2
        from "1.IH" [OF Some p [symmetric] _ 2] True
        have "e' \<le> s \<and> s \<le> length t \<and> ends r t s \<noteq> [] \<and> e = hd (ends r t s)" by simp
        moreover from ends_bounds [OF b(2) b(3)] b(1) have "i \<le> e'" by simp
        ultimately show ?thesis by simp
      qed
    next
      case False
      with Some p have "matches_from r t i = [(s', e')]"
        by (subst matches_from.simps) auto
      with "1.prems" b first show ?thesis by auto
    qed
  qed
qed

lemma scan_pattern_returns:
  assumes "0 < minlen r"
  shows "scan_pattern ty r tx li acc =
           Some ((fst acc @ map (location_of ty tx) (matches_from r tx li),
                  if matches_from r tx li = [] then snd acc
                  else set_add (pii_category ty) (snd acc)), 0)"
proof (induction "Suc (length tx) - li" arbitrary: li acc rule: less_induct)
  case less
  show ?case
  proof (cases "rx_search r tx li")
    case None
    then have "scan_pattern ty r tx li acc = Some (acc, 0)"
      by (subst scan_pattern.simps) (simp add: exec_global_def)
    with None show ?thesis by (simp add: matches_from_None)
  next
    case (Some p)
    obtain s e where p: "p = (s, e)" by (cases p)
    from rx_search_progress [OF assms] Some p have prog: "li < e" "e \<le> length tx" by auto
    define acc' where "acc' =
      (fst acc @ [\<lparr>loc_type = ty, loc_start = s, loc_end = e, loc_value = slice s e tx\<rparr>],
       set_add (pii_category ty) (snd acc))"
    from Some p have step: "scan_pattern ty r tx li acc = scan_pattern ty r tx e acc'"
      by (subst scan_pattern.simps) (simp add: exec_global_def acc'_def)
    from prog have "Suc (length tx) - e < Suc (length tx) - li" by simp
    from less [OF this, of acc']
    have rest: "scan_pattern ty r tx e acc' =
         Some ((fst acc' @ map (location_of ty tx) (matches_from r tx e),
                if matches_from r tx e = [] then snd acc'
                else set_add (pii_category ty) (snd acc')), 0)" .
    from Some p prog have m: "matches_from r tx li = (s, e) # matches_from r tx e"
      by (simp add: matches_from_Some)
    from step rest show ?thesis
      by (simp add: m acc'_def set_add_idem location_of_def)
  qed
qed

lemma scan_all_returns:
  assumes "\<forall>p \<in> set ps. 0 < minlen (snd p)" and "distinct (map fst ps)"
  shows "\<exists>tys. scan_all ps tx st acc =
            Some ((fst acc @ concat (map (\<lambda>(ty, r). map (location_of ty tx)
                                           (matches_from r tx (st ty))) ps), tys),
                  rested ps st) \<and>
          set tys = set (snd acc) \<union>
            (\<lambda>p. pii_category (fst p)) ` {p \<in> set ps. rx_search (snd p) tx (st (fst p)) \<noteq> None}"
  using assms
proof (induction ps arbitrary: st acc)
  case Nil
  show ?case by (intro exI [of _ "snd acc"]) (simp add: rested_def)
next
  case (Cons p ps)
  obtain ty r where p: "p = (ty, r)" by (cases p)
  from Cons.prems p have pos: "0 < minlen r" by simp
  from Cons.prems p have fresh: "ty \<notin> fst ` set ps" by auto
  let ?ms = "matches_from r tx (st ty)"
  define acc1 where
    "acc1 = (fst acc @ map (location_of ty tx) ?ms,
             if ?ms = [] then snd acc else set_add (pii_category ty) (snd acc))"
  define st1 where "st1 = st(ty := 0)"
  have one: "scan_pattern ty r tx (st ty) acc = Some (acc1, 0)"
    unfolding acc1_def by (rule scan_pattern_returns [OF pos])
  from Cons.prems have "\<forall>p \<in> set ps. 0 < minlen (snd p)" "distinct (map fst ps)" by simp_all
  from Cons.IH [OF this, of st1 acc1] obtain tys where
    l2': "scan_all ps tx st1 acc1 =
            Some ((fst acc1 @ concat (map (\<lambda>(ty, r). map (location_of ty tx)
                                           (matches_from r tx (st1 ty))) ps), tys),
                  rested ps st1) \<and>
          set tys = set (snd acc1) \<union>
            (\<lambda>p. pii_category (fst p)) ` {p \<in> set ps. rx_search (snd p) tx (st1 (fst p)) \<noteq> None}" ..
  note l2 = conjunct1 [OF l2'] conjunct2 [OF l2']
  have same: "st1 (fst q) = st (fst q)" if "q \<in> set ps" for q
    using that fresh by (auto simp: st1_def)
  have locs: "concat (map (\<lambda>(ty, r). map (location_of ty tx) (matches_from r tx (st1 ty))) ps)
      = concat (map (\<lambda>(ty, r). map (location_of ty tx) (matches_from r tx (st ty))) ps)"
  proof -
    have "map (\<lambda>(ty, r). map (location_of ty tx) (matches_from r tx (st1 ty))) ps
        = map (\<lambda>(ty, r). map (location_of ty tx) (matches_from r tx (st ty))) ps"
    proof (rule map_cong [OF refl])
      fix q assume "q \<in> set ps"
      from same [OF this]
      show "(case q of (ty, r) \<Rightarrow> map (location_of ty tx) (matches_from r tx (st1 ty)))
          = (case q of (ty, r) \<Rightarrow> map (location_of ty tx) (matches_from r tx (st ty)))"
        by (simp add: split_def)
    qed
    then show ?thesis by (rule arg_cong [where f = concat])
  qed
  have fin: "rested ps st1 = rested (p # ps) st"
    by (auto simp: rested_def st1_def p fun_eq_iff)
  have a: "scan_all (p # ps) tx st acc =
      Some ((fst acc @ concat (map (\<lambda>(ty, r). map (location_of ty tx)
                                     (matches_from r tx (st ty))) (p # ps)), tys),
            rested (p # ps) st)"
    using one l2(1) by (simp add: p st1_def [symmetric] locs fin acc1_def)
  have set1: "{q \<in> set ps. rx_search (snd q) tx (st1 (fst q)) \<noteq> None}
      = {q \<in> set ps. rx_search (snd q) tx (st (fst q)) \<noteq> None}"
    using same by auto
  have split: "{q \<in> set (p # ps). rx_search (snd q) tx (st (fst q)) \<noteq> None} =
      (if rx_search r tx (st ty) \<noteq> None then {p} else {}) \<union>
      {q \<in> set ps. rx_search (snd q) tx (st (fst q)) \<noteq> None}"
    by (auto simp: p)
  have "set (snd acc1) =
      set (snd acc) \<union> (if rx_search r tx (st ty) \<noteq> None then {pii_category ty} else {})"
    by (cases "rx_search r tx (st ty)") (auto simp: acc1_def set_set_add matches_from_empty)
  with l2(2) have c: "set tys = set (snd acc) \<union>
      (\<lambda>p. pii_category (fst p)) ` {q \<in> set (p # ps). rx_search (snd q) tx (st (fst q)) \<noteq> None}"
    unfolding split set1 by (simp add: p image_Un Un_assoc)
  from a c show ?case by (intro exI [of _ tys] conjI)
qed

lemmas rx_defs = email_rx_def phone_rx_def phoneAlt_rx_def address_rx_def creditCard_rx_def
  socialSecurityJP_rx_def personalNumber_rx_def seqs_def Plus_def Opt_def Between_def AtLeast_def
  Lit_def digit_def dash_or_space_def

lemmas chr_defs = ascii_def wordAt_def isWordChar_def isDigit_def isUpper_def isLower_def
  isWhiteSpace_def

lemma Times_numeral: "Times (numeral k) r = Seq r (Times (pred_numeral k) r)"
  by (simp add: numeral_eq_Suc)

lemma Times_1: "Times 1 r = Seq r Eps"
  by (simp add: One_nat_def)

lemma UpTo_numeral: "UpTo (numeral k) r = Opt (Seq r (UpTo (pred_numeral k) r))"
  by (simp add: numeral_eq_Suc)

lemma UpTo_1: "UpTo 1 r = Opt (Seq r Eps)"
  by (simp add: One_nat_def)

lemmas rx_eval = rx_defs chr_defs Times_numeral Times_1 UpTo_numeral UpTo_1

lemma PII_PATTERNS_consume: "\<forall>p \<in> set PII_PATTERNS. 0 < minlen (snd p)"
  by (simp add: PII_PATTERNS_def rx_defs Times_numeral Times_1 UpTo_numeral UpTo_1)


lemma PII_PATTERNS_distinct: "distinct (map fst PII_PATTERNS)"
  by (simp add: PII_PATTERNS_def)

lemma rested_at_rest: "rested ps at_rest = at_rest"
  by (simp add: rested_def at_rest_def fun_eq_iff)

lemma found_locations_empty:
  "found_locations st tx = [] \<longleftrightarrow>
     (\<forall>p \<in> set PII_PATTERNS. rx_search (snd p) tx (st (fst p)) = None)"
  by (auto simp: found_locations_def matches_from_empty split_def)

lemma matchCount_locations: "length (found_locations at_rest tx) = matchCount tx"
  by (simp add: found_locations_def matchCount_def length_concat comp_def split_def at_rest_def)

lemma detectPII_result:
  "\<exists>tys. detectPII st tx =
       Some (\<lparr>hasPII = (found_locations st tx \<noteq> []), types = tys,
              confidence = (if found_locations st tx \<noteq> []
                            then min (times_0_3 (length (found_locations st tx))) 1 else 0),
              locations = found_locations st tx\<rparr>,
             rested PII_PATTERNS st) \<and>
     set tys = (\<lambda>p. pii_category (fst p)) `
         {p \<in> set PII_PATTERNS. rx_search (snd p) tx (st (fst p)) \<noteq> None}"
proof -
  from scan_all_returns [OF PII_PATTERNS_consume PII_PATTERNS_distinct, of tx st "([], [])"]
  obtain tys where r:
    "scan_all PII_PATTERNS tx st ([], []) =
       Some ((found_locations st tx, tys), rested PII_PATTERNS st) \<and>
     set tys = (\<lambda>p. pii_category (fst p)) `
         {p \<in> set PII_PATTERNS. rx_search (snd p) tx (st (fst p)) \<noteq> None}"
    by (auto simp: found_locations_def)
  then show ?thesis by (intro exI [of _ tys]) (simp add: detectPII_def)
qed

text \<open>
  \<open>detectPII\<close> returns for every text and every state of the patterns, and leaves the
  patterns at rest.  Each pattern is searched from its own \<open>lastIndex\<close>.
\<close>

lemma detectPII_returns:
  "\<exists>res. detectPII st tx = Some (res, rested PII_PATTERNS st) \<and>
     (hasPII res \<longleftrightarrow> (\<exists>p \<in> set PII_PATTERNS. rx_search (snd p) tx (st (fst p)) \<noteq> None)) \<and>
     set (types res) =
       (\<lambda>p. pii_category (fst p)) `
         {p \<in> set PII_PATTERNS. rx_search (snd p) tx (st (fst p)) \<noteq> None} \<and>
     locations res = found_locations st tx \<and>
     confidence res =
       (if hasPII res then min (times_0_3 (length (found_locations st tx))) 1 else 0)"
proof -
  from detectPII_result [of st tx] obtain tys where r:
    "detectPII st tx =
       Some (\<lparr>hasPII = (found_locations st tx \<noteq> []), types = tys,
              confidence = (if found_locations st tx \<noteq> []
                            then min (times_0_3 (length (found_locations st tx))) 1 else 0),
              locations = found_locations st tx\<rparr>,
             rested PII_PATTERNS st) \<and>
     set tys = (\<lambda>p. pii_category (fst p)) `
         {p \<in> set PII_PATTERNS. rx_search (snd p) tx (st (fst p)) \<noteq> None}" ..
  let ?res = "\<lparr>hasPII = (found_locations st tx \<noteq> []), types = tys,
              confidence = (if found_locations st tx \<noteq> []
                            then min (times_0_3 (length (found_locations st tx))) 1 else 0),
              locations = found_locations st tx\<rparr>"
  have h: "hasPII ?res \<longleftrightarrow>
      (\<exists>p \<in> set PII_PATTERNS. rx_search (snd p) tx (st (fst p)) \<noteq> None)"
    using found_locations_empty [of st tx] by simp
  from r h show ?thesis by (intro exI [of _ ?res]) simp
qed

lemma detectPII_at_rest:
  "\<exists>res. detectPII at_rest tx = Some (res, at_rest) \<and>
     (hasPII res \<longleftrightarrow> (\<exists>p \<in> set PII_PATTERNS. rx_test (snd p) tx)) \<and>
     set (types res) = (\<lambda>p. pii_category (fst p)) ` {p \<in> set PII_PATTERNS. rx_test (snd p) tx} \<and>
     locations res = found_locations at_rest tx \<and>
     length (locations res) = matchCount tx \<and>
     confidence res = (if hasPII res then min (times_0_3 (matchCount tx)) 1 else 0)"
proof -
  from detectPII_returns [of at_rest tx] obtain res where r:
    "detectPII at_rest tx = Some (res, rested PII_PATTERNS at_rest) \<and>
     (hasPII res \<longleftrightarrow>
        (\<exists>p \<in> set PII_PATTERNS. rx_search (snd p) tx (at_rest (fst p)) \<noteq> None)) \<and>
     set (types res) =
       (\<lambda>p. pii_category (fst p)) `
         {p \<in> set PII_PATTERNS. rx_search (snd p) tx (at_rest (fst p)) \<noteq> None} \<and>
     locations res = found_locations at_rest tx \<and>
     confidence res =
       (if hasPII res then min (times_0_3 (length (found_locations at_rest tx))) 1 else 0)" ..
  have eq: "rx_search (snd p) tx (at_rest (fst p)) \<noteq> None \<longleftrightarrow> rx_test (snd p) tx" for p
    by (simp add: rx_test_def at_rest_def)
  note r' = r [unfolded eq rested_at_rest matchCount_locations]
  from r' have "length (locations res) = matchCount tx"
    by (simp add: matchCount_locations)
  with r' show ?thesis by (intro exI [of _ res]) simp
qed

lemma bit_length_0: "bit_length 0 = 0"
  by (subst bit_length.simps) simp

lemma bit_length_pos: "0 < n \<Longrightarrow> bit_length n = bit_length (n div 2) + 1"
  by (subst bit_length.simps) simp

lemma bit_length_upper: "n < 2 ^ bit_length n"
proof (induction n rule: bit_length.induct)
  case (1 n)
  show ?case
  proof (cases "n = 0")
    case True
    then show ?thesis by (simp add: bit_length_0)
  next
    case False
    with 1 have "n div 2 < 2 ^ bit_length (n div 2)" by simp
    then have "n < 2 * 2 ^ bit_length (n div 2)" by linarith
    with False show ?thesis by (simp add: bit_length_pos)
  qed
qed

lemma bit_length_lower: "0 < n \<Longrightarrow> 2 ^ (bit_length n - 1) \<le> n"
proof (induction n rule: bit_length.induct)
  case (1 n)
  show ?case
  proof (cases "n div 2 = 0")
    case True
    with "1.prems" have "n = 1" by (simp add: div_eq_0_iff) 
    then show ?thesis by (simp add: bit_length_pos bit_length_0)
  next
    case False
    with 1 have ih: "2 ^ (bit_length (n div 2) - 1) \<le> n div 2" by simp
    from False have "0 < bit_length (n div 2)" by (simp add: bit_length_pos)
    then have "(2::nat) ^ bit_length (n div 2) = 2 * 2 ^ (bit_length (n div 2) - 1)"
      by (cases "bit_length (n div 2)") simp_all
    also have "\<dots> \<le> 2 * (n div 2)" using ih by simp
    also have "\<dots> \<le> n" by simp
    finally show ?thesis using "1.prems" by (simp add: bit_length_pos)
  qed
qed

lemma round_to_53_bits_ge:
  assumes "2 ^ 54 \<le> k"
  shows "2 ^ 54 \<le> round_to_53_bits k"
proof -
  define b where "b = bit_length k"
  from assms have pos: "0 < k" by (simp add: order.strict_trans2 [of 0 "2 ^ 54"])
  have lt: "(2::nat) ^ 54 < 2 ^ b" using assms bit_length_upper [of k] unfolding b_def by linarith
  have b: "54 < b"
  proof (rule power_less_imp_less_exp)
    show "(1::nat) < 2" by simp
    show "(2::nat) ^ 54 < 2 ^ b" by (rule lt)
  qed
  define s where "s = b - 53"
  from b have bs: "b - 1 = 52 + s" by (simp add: s_def)
  from bit_length_lower [OF pos] have "2 ^ (b - 1) \<le> k" by (simp add: b_def)
  then have low: "2 ^ (52 + s) \<le> k" unfolding bs .
  have "(2::nat) ^ 52 * 2 ^ s \<le> k" using low by (simp add: power_add)
  then have q: "2 ^ 52 \<le> k div 2 ^ s"
    by (simp add: less_eq_div_iff_mult_less_eq)
  have "(2::nat) ^ 54 \<le> 2 ^ 52 * 2 ^ s"
  proof -
    from b have "2 \<le> s" by (simp add: s_def)
    then have "(2::nat) ^ 2 \<le> 2 ^ s" by (rule power_increasing) simp
    then show ?thesis by simp
  qed
  also have "\<dots> \<le> (k div 2 ^ s) * 2 ^ s" using q by simp
  also have "\<dots> \<le> (if k mod 2 ^ s > 2 ^ (s - 1) \<or> (k mod 2 ^ s = 2 ^ (s - 1) \<and> odd (k div 2 ^ s))
                   then k div 2 ^ s + 1 else k div 2 ^ s) * 2 ^ s"
    by simp
  finally show ?thesis using b by (simp add: round_to_53_bits_def Let_def b_def [symmetric] s_def [symmetric])
qed

lemma times_0_3_capped: "4 \<le> n \<Longrightarrow> min (times_0_3 n) 1 = 1"
proof -
  assume "4 \<le> n"
  then have "4 * 5404319552844595 \<le> n * 5404319552844595" by (rule mult_le_mono1)
  then have "2 ^ 54 \<le> n * 5404319552844595" by simp
  from round_to_53_bits_ge [OF this]
  have "(2::rat) ^ 54 \<le> of_nat (round_to_53_bits (n * 5404319552844595))"
    by (metis of_nat_le_iff of_nat_numeral of_nat_power)
  then have "1 \<le> times_0_3 n" by (simp add: times_0_3_def)
  then show ?thesis by simp
qed

lemma times_0_3_values:
  "times_0_3 1 = 5404319552844595 / 18014398509481984 \<and>
   times_0_3 2 = 5404319552844595 / 9007199254740992 \<and>
   times_0_3 3 = 2026619832316723 / 2251799813685248"
  by (simp add: times_0_3_def round_to_53_bits_def Let_def bit_length_pos bit_length_0)

lemma rx_search_step:
  "i \<le> length t \<Longrightarrow>
   rx_search r t i = (case ends r t i of e # _ \<Rightarrow> Some (i, e) | [] \<Rightarrow> rx_search r t (Suc i))"
  by (subst rx_search.simps) simp

lemmas search_eval = rx_search_step rx_search_end rx_eval ends.simps(5)

lemma digits_email: "rx_search email_rx digits_text 0 = None"
  by (simp add: digits_text_def search_eval)

lemma digits_phone: "rx_search phone_rx digits_text 0 = Some (9, 16)"
  by (simp add: digits_text_def search_eval)

lemma digits_phone_rest: "rx_search phone_rx digits_text 16 = None"
  by (simp add: digits_text_def search_eval)

lemma digits_phoneAlt: "rx_search phoneAlt_rx digits_text 0 = None"
  by (simp add: digits_text_def search_eval)

lemma digits_address: "rx_search address_rx digits_text 0 = None"
  by (simp add: digits_text_def search_eval)

lemma digits_creditCard: "rx_search creditCard_rx digits_text 0 = Some (0, 16)"
  by (simp add: digits_text_def search_eval)

lemma digits_creditCard_rest: "rx_search creditCard_rx digits_text 16 = None"
  by (simp add: digits_text_def search_eval)

lemma digits_socialSecurityJP: "rx_search socialSecurityJP_rx digits_text 0 = None"
  by (simp add: digits_text_def search_eval)

lemma digits_personalNumber: "rx_search personalNumber_rx digits_text 0 = Some (0, 12)"
  by (simp add: digits_text_def search_eval)

lemma digits_personalNumber_rest: "rx_search personalNumber_rx digits_text 12 = None"
  by (simp add: digits_text_def search_eval)

lemma digits_length: "length digits_text = 16"
  by (simp add: digits_text_def ascii_def)

lemma digits_locations:
  "found_locations at_rest digits_text =
     [\<lparr>loc_type = ''phone'', loc_start = 9, loc_end = 16, loc_value = ascii ''0123456''\<rparr>,
      \<lparr>loc_type = ''creditCard'', loc_start = 0, loc_end = 16,
        loc_value = ascii ''1234567890123456''\<rparr>,
      \<lparr>loc_type = ''personalNumber'', loc_start = 0, loc_end = 12,
        loc_value = ascii ''123456789012''\<rparr>]"
proof -
  have "matches_from email_rx digits_text 0 = []"
    "matches_from phoneAlt_rx digits_text 0 = []"
    "matches_from address_rx digits_text 0 = []"
    "matches_from socialSecurityJP_rx digits_text 0 = []"
    by (simp_all add: matches_from_None digits_email digits_phoneAlt digits_address
        digits_socialSecurityJP)
  moreover have "matches_from phone_rx digits_text 0 = [(9, 16)]"
    using matches_from_Some [OF digits_phone] matches_from_None [OF digits_phone_rest]
    by (simp add: digits_length)
  moreover have "matches_from creditCard_rx digits_text 0 = [(0, 16)]"
    using matches_from_Some [OF digits_creditCard] matches_from_None [OF digits_creditCard_rest]
    by (simp add: digits_length)
  moreover have "matches_from personalNumber_rx digits_text 0 = [(0, 12)]"
    using matches_from_Some [OF digits_personalNumber]
      matches_from_None [OF digits_personalNumber_rest]
    by (simp add: digits_length)
  ultimately show ?thesis
    by (simp add: found_locations_def PII_PATTERNS_def at_rest_def location_of_def slice_def
        digits_text_def ascii_def)
qed

lemma email_in_contact_text: "rx_test email_rx contact_text"
proof -
  have "ends email_rx contact_text 14 = [30]"
    by (simp add: contact_text_def rx_eval ends.simps(5))
  then have "rx_search email_rx contact_text 0 \<noteq> None"
    by (intro rx_search_found [of 0 14]) (simp_all add: contact_text_def ascii_def)
  then show ?thesis by (simp add: rx_test_def)
qed

lemma validateEmail_moves_lastIndex:
  "validateEmail at_rest (ascii ''someone@example.com'') = (True, at_rest(''email'' := 19))"
proof -
  have "rx_search email_rx (ascii ''someone@example.com'') 0 = Some (0, 19)"
    by (simp add: search_eval)
  then show ?thesis by (simp add: validateEmail_def exec_global_def at_rest_def)
qed

lemma contact_from_19:
  "\<forall>p \<in> set PII_PATTERNS. rx_search (snd p) contact_text ((at_rest(''email'' := 19)) (fst p)) = None"
  by (simp add: PII_PATTERNS_def at_rest_def contact_text_def search_eval)

text \<open>One call of \<open>detectPII\<close> puts the email pattern back at rest.\<close>

lemma rested_after_validateEmail: "rested PII_PATTERNS (at_rest(''email'' := li)) = at_rest"
  by (auto simp: rested_def at_rest_def PII_PATTERNS_def fun_eq_iff)

lemma digits_tests:
  "\<not> rx_test email_rx digits_text" "rx_test phone_rx digits_text"
  "\<not> rx_test phoneAlt_rx digits_text" "\<not> rx_test address_rx digits_text"
  "rx_test creditCard_rx digits_text" "\<not> rx_test socialSecurityJP_rx digits_text"
  "rx_test personalNumber_rx digits_text"
  by (simp_all add: rx_test_def digits_email digits_phone digits_phoneAlt
      digits_address digits_creditCard digits_socialSecurityJP digits_personalNumber)

lemma digits_categories:
  "(\<lambda>p. pii_category (fst p)) ` {p \<in> set PII_PATTERNS. rx_test (snd p) digits_text} =
     {''phone'', ''creditCard'', ''personalId''}"
proof -
  have "{p \<in> set PII_PATTERNS. rx_test (snd p) digits_text}
      = set (filter (\<lambda>p. rx_test (snd p) digits_text) PII_PATTERNS)"
    by simp
  also have "filter (\<lambda>p. rx_test (snd p) digits_text) PII_PATTERNS =
      [(''phone'', phone_rx), (''creditCard'', creditCard_rx),
       (''personalNumber'', personalNumber_rx)]"
    by (simp add: PII_PATTERNS_def digits_tests)
  finally have "{p \<in> set PII_PATTERNS. rx_test (snd p) digits_text} =
      set [(''phone'', phone_rx), (''creditCard'', creditCard_rx),
           (''personalNumber'', personalNumber_rx)]" .
  then have "(\<lambda>p. pii_category (fst p)) ` {p \<in> set PII_PATTERNS. rx_test (snd p) digits_text} =
      (\<lambda>p. pii_category (fst p)) `
        set [(''phone'', phone_rx), (''creditCard'', creditCard_rx),
             (''personalNumber'', personalNumber_rx)]"
    by (rule arg_cong)
  also have "\<dots> = {''phone'', ''creditCard'', ''personalId''}"
    by (simp add: pii_category_def insert_commute)
  finally show ?thesis .
qed

lemma digits_count: "matchCount digits_text = 3"
  using matchCount_locations [of digits_text] by (simp add: digits_locations)

text \<open>
  C9, as amended.  With the \<open>lastIndex\<close> of every pattern at 0, \<open>detectPII\<close> returns and
  leaves the patterns so.  It reports \<open>hasPII\<close> exactly when one of the seven patterns
  matches somewhere in the text; the categories are those of the patterns that match;
  the locations are the successive matches of each pattern, in the order of the table,
  and \<open>matchCount\<close> is their number.  The confidence is the double that
  \<open>Math.min(matchCount * 0.3, 1)\<close> evaluates to when there is a match, and 0 when there is
  none: the doubles written \<open>0.3\<close>, \<open>0.6\<close> and \<open>0.8999999999999999\<close> for one, two and
  three matches, and 1 from four matches on.  For the text
  \<open>contact me at test@example.com\<close> it reports \<open>hasPII\<close> with \<open>email\<close> among the
  categories.
\<close>

theorem detectPII_reports_matches:
  "(\<exists>res. detectPII at_rest tx = Some (res, at_rest) \<and>
     (hasPII res \<longleftrightarrow> (\<exists>p \<in> set PII_PATTERNS. rx_test (snd p) tx)) \<and>
     set (types res) = (\<lambda>p. pii_category (fst p)) ` {p \<in> set PII_PATTERNS. rx_test (snd p) tx} \<and>
     locations res = found_locations at_rest tx \<and>
     length (locations res) = matchCount tx \<and>
     confidence res = (if hasPII res then min (times_0_3 (matchCount tx)) 1 else 0)) \<and>
   times_0_3 1 = 5404319552844595 / 18014398509481984 \<and>
   times_0_3 2 = 5404319552844595 / 9007199254740992 \<and>
   times_0_3 3 = 2026619832316723 / 2251799813685248 \<and>
   (4 \<le> n \<longrightarrow> min (times_0_3 n) 1 = 1) \<and>
   (\<exists>res. detectPII at_rest (ascii ''contact me at test@example.com'') = Some (res, at_rest) \<and>
      hasPII res \<and> ''email'' \<in> set (types res))"
proof -
  from detectPII_at_rest [of contact_text] obtain res where r:
    "detectPII at_rest contact_text = Some (res, at_rest) \<and>
     (hasPII res \<longleftrightarrow> (\<exists>p \<in> set PII_PATTERNS. rx_test (snd p) contact_text)) \<and>
     set (types res) =
       (\<lambda>p. pii_category (fst p)) ` {p \<in> set PII_PATTERNS. rx_test (snd p) contact_text} \<and>
     locations res = found_locations at_rest contact_text \<and>
     length (locations res) = matchCount contact_text \<and>
     confidence res = (if hasPII res then min (times_0_3 (matchCount contact_text)) 1 else 0)" ..
  note res = r [THEN conjunct1] r [THEN conjunct2, THEN conjunct1]
    r [THEN conjunct2, THEN conjunct2, THEN conjunct1]
  have mem: "(''email'', email_rx) \<in> set PII_PATTERNS" by (simp add: PII_PATTERNS_def)
  with email_in_contact_text res(2) have h: "hasPII res" by force
  have e: "''email'' \<in> set (types res)"
  proof -
    from mem email_in_contact_text
    have "(''email'', email_rx) \<in> {p \<in> set PII_PATTERNS. rx_test (snd p) contact_text}" by simp
    then have "pii_category (fst (''email'', email_rx))
        \<in> (\<lambda>p. pii_category (fst p)) ` {p \<in> set PII_PATTERNS. rx_test (snd p) contact_text}"
      by (rule imageI)
    with res(3) show ?thesis by (simp add: pii_category_def)
  qed
  from res(1) h e have example:
    "\<exists>res. detectPII at_rest (ascii ''contact me at test@example.com'') = Some (res, at_rest) \<and>
       hasPII res \<and> ''email'' \<in> set (types res)"
    unfolding contact_text_def by (intro exI [of _ res]) simp
  have cap: "4 \<le> n \<longrightarrow> min (times_0_3 n) 1 = 1"
    by (rule impI) (rule times_0_3_capped)
  show ?thesis
    by (intro conjI detectPII_at_rest times_0_3_values [THEN conjunct1]
        times_0_3_values [THEN conjunct2, THEN conjunct1]
        times_0_3_values [THEN conjunct2, THEN conjunct2] cap example)
qed


theorem detectPII_reports_matches_witness:
  "\<exists>res. detectPII at_rest (ascii ''1234567890123456'') = Some (res, at_rest) \<and>
     hasPII res \<and> set (types res) = {''phone'', ''creditCard'', ''personalId''} \<and>
     locations res =
       [\<lparr>loc_type = ''phone'', loc_start = 9, loc_end = 16, loc_value = ascii ''0123456''\<rparr>,
        \<lparr>loc_type = ''creditCard'', loc_start = 0, loc_end = 16,
          loc_value = ascii ''1234567890123456''\<rparr>,
        \<lparr>loc_type = ''personalNumber'', loc_start = 0, loc_end = 12,
          loc_value = ascii ''123456789012''\<rparr>] \<and>
     confidence res = 2026619832316723 / 2251799813685248 \<and>
     min (times_0_3 5) 1 = 1"
proof -
  note inst = detectPII_reports_matches [of digits_text 5]
  from inst [THEN conjunct1] obtain res where r:
    "detectPII at_rest digits_text = Some (res, at_rest) \<and>
     (hasPII res \<longleftrightarrow> (\<exists>p \<in> set PII_PATTERNS. rx_test (snd p) digits_text)) \<and>
     set (types res) =
       (\<lambda>p. pii_category (fst p)) ` {p \<in> set PII_PATTERNS. rx_test (snd p) digits_text} \<and>
     locations res = found_locations at_rest digits_text \<and>
     length (locations res) = matchCount digits_text \<and>
     confidence res = (if hasPII res then min (times_0_3 (matchCount digits_text)) 1 else 0)" ..
  from inst have cap: "min (times_0_3 5) 1 = 1" by simp
  from inst have three: "times_0_3 3 = 2026619832316723 / 2251799813685248" by simp
  have mem: "(''phone'', phone_rx) \<in> set PII_PATTERNS" by (simp add: PII_PATTERNS_def)
  from r mem digits_tests(2) have h: "hasPII res" by force
  from r have t: "set (types res) = {''phone'', ''creditCard'', ''personalId''}"
    by (simp add: digits_categories)
  from r h have c: "confidence res = 2026619832316723 / 2251799813685248"
    by (simp add: digits_count three)
  from r have l: "locations res = found_locations at_rest digits_text" by simp
  from r have d: "detectPII at_rest (ascii ''1234567890123456'') = Some (res, at_rest)"
    by (simp add: digits_text_def)
  from d h t l c cap show ?thesis
    unfolding digits_locations by (intro exI [of _ res] conjI)
qed

text \<open>
  C9, as stated, fails in two ways.  Three matches give the confidence
  \<open>0.8999999999999999\<close>, the double \<open>2026619832316723 / 2^51\<close>, and not \<open>min (3 * 0.3) 1\<close>,
  which is nine tenths.  And the patterns keep their \<open>lastIndex\<close> between calls: once
  \<open>validateEmail\<close> has accepted an address of 19 characters, the email pattern is
  searched from index 19, and \<open>detectPII\<close> finds nothing in
  \<open>contact me at test@example.com\<close>, a text the email pattern matches.
\<close>

theorem detectPII_confidence_and_lastIndex:
  "map_option (\<lambda>(res, st). (length (locations res), confidence res))
       (detectPII at_rest (ascii ''1234567890123456'')) =
     Some (3, 2026619832316723 / 2251799813685248) \<and>
   2026619832316723 / 2251799813685248 \<noteq> min (3 * (3 / 10)) (1 :: rat) \<and>
   validateEmail at_rest (ascii ''someone@example.com'') = (True, at_rest(''email'' := 19)) \<and>
   rx_test email_rx (ascii ''contact me at test@example.com'') \<and>
   map_option (\<lambda>(res, st). (hasPII res, types res, confidence res))
       (detectPII (at_rest(''email'' := 19)) (ascii ''contact me at test@example.com'')) =
     Some (False, [], 0)"
proof -
  from detectPII_at_rest [of digits_text] obtain res where r:
    "detectPII at_rest digits_text = Some (res, at_rest) \<and>
     (hasPII res \<longleftrightarrow> (\<exists>p \<in> set PII_PATTERNS. rx_test (snd p) digits_text)) \<and>
     set (types res) =
       (\<lambda>p. pii_category (fst p)) ` {p \<in> set PII_PATTERNS. rx_test (snd p) digits_text} \<and>
     locations res = found_locations at_rest digits_text \<and>
     length (locations res) = matchCount digits_text \<and>
     confidence res = (if hasPII res then min (times_0_3 (matchCount digits_text)) 1 else 0)" ..
  have mem: "(''phone'', phone_rx) \<in> set PII_PATTERNS" by (simp add: PII_PATTERNS_def)
  from r mem digits_tests(2) have h: "hasPII res" by force
  from r h have "confidence res = 2026619832316723 / 2251799813685248"
    using times_0_3_values by (simp add: digits_count)
  moreover from r [THEN conjunct2, THEN conjunct2, THEN conjunct2, THEN conjunct2, THEN conjunct1]
  have "length (locations res) = 3" by (simp only: digits_count)
  moreover from r have "detectPII at_rest (ascii ''1234567890123456'') = Some (res, at_rest)"
    by (simp add: digits_text_def)
  ultimately have a: "map_option (\<lambda>(res, st). (length (locations res), confidence res))
       (detectPII at_rest (ascii ''1234567890123456'')) =
     Some (3, 2026619832316723 / 2251799813685248)"
    by simp
  have b: "2026619832316723 / 2251799813685248 \<noteq> min (3 * (3 / 10)) (1 :: rat)"
    by simp
  let ?st = "at_rest(''email'' := 19)"
  from detectPII_result [of ?st contact_text] obtain tys where r':
    "detectPII ?st contact_text =
       Some (\<lparr>hasPII = (found_locations ?st contact_text \<noteq> []), types = tys,
              confidence = (if found_locations ?st contact_text \<noteq> []
                            then min (times_0_3 (length (found_locations ?st contact_text))) 1
                            else 0),
              locations = found_locations ?st contact_text\<rparr>,
             rested PII_PATTERNS ?st) \<and>
     set tys = (\<lambda>p. pii_category (fst p)) `
         {p \<in> set PII_PATTERNS. rx_search (snd p) contact_text (?st (fst p)) \<noteq> None}" ..
  from contact_from_19 have e: "found_locations ?st contact_text = []"
    by (simp only: found_locations_empty)
  have "{p \<in> set PII_PATTERNS. rx_search (snd p) contact_text (?st (fst p)) \<noteq> None} = {}"
  proof (rule Collect_empty_eq [THEN iffD2], rule allI, rule notI)
    fix p
    assume a: "p \<in> set PII_PATTERNS \<and> rx_search (snd p) contact_text (?st (fst p)) \<noteq> None"
    from a [THEN conjunct2] bspec [OF contact_from_19 a [THEN conjunct1]]
    show False by (rule notE)
  qed
  with r' [THEN conjunct2] have "set tys = {}" by (simp only: image_empty)
  then have "tys = []" by simp
  with r' e have c: "map_option (\<lambda>(res, st). (hasPII res, types res, confidence res))
       (detectPII ?st (ascii ''contact me at test@example.com'')) = Some (False, [], 0)"
    by (simp add: contact_text_def)
  have d: "rx_test email_rx (ascii ''contact me at test@example.com'')"
    using email_in_contact_text by (simp add: contact_text_def)
  from a b validateEmail_moves_lastIndex d c show ?thesis by (intro conjI)
qed

section \<open>Properties of the draft storage\<close>

lemma entries_toJSON_simps:
  "entries_toJSON [] = []"
  "entries_toJSON ((k, v) # kvs) =
     (case js_toJSON v of None \<Rightarrow> [] | Some w \<Rightarrow> [(k, w)]) @ entries_toJSON kvs"
  by (simp_all add: entries_toJSON_def)

lemma date_toJSON_idem: "date_toJSON (date_toJSON d) = date_toJSON d"
  by (cases d) auto


text \<open>A value that is safe for JSON is its own JSON form, and every JSON form is safe.\<close>

lemma json_value_fixed: "json_value v \<Longrightarrow> js_toJSON v = Some v"
proof (induction v rule: js_toJSON.induct)
  case (7 d)
  then show ?case by (cases d) auto
next
  case (8 xs)
  then have "\<forall>x \<in> set xs. js_toJSON x = Some x" by (auto simp: list_all_iff)
  then have "map (\<lambda>x. case js_toJSON x of None \<Rightarrow> JNull | Some y \<Rightarrow> y) xs = xs"
    by (intro map_idI) simp
  then show ?case by simp
next
  case (9 kvs)
  then have "\<forall>kv \<in> set kvs. js_toJSON (snd kv) = Some (snd kv)"
    by (auto simp: list_all_iff)
  then have "entries_toJSON kvs = kvs"
    by (induction kvs) (auto simp: entries_toJSON_simps)
  then show ?case by (simp add: entries_toJSON_def)
qed auto

lemma entries_json_value_aux:
  "(\<And>k v w. (k, v) \<in> set kvs \<Longrightarrow> js_toJSON v = Some w \<Longrightarrow> json_value w) \<Longrightarrow>
   list_all (\<lambda>(k, v). json_value v) (entries_toJSON kvs)"
proof (induction kvs)
  case Nil
  then show ?case by (simp add: entries_toJSON_simps)
next
  case (Cons kv kvs)
  obtain k v where kv: "kv = (k, v)" by (cases kv)
  have "list_all (\<lambda>(k, v). json_value v) (entries_toJSON kvs)"
  proof (rule Cons.IH)
    fix k' v' w
    assume "(k', v') \<in> set kvs" and "js_toJSON v' = Some w"
    then show "json_value w" by (intro Cons.prems [of k' v']) simp_all
  qed
  moreover have "json_value w" if "js_toJSON v = Some w" for w
    by (rule Cons.prems [of k v]) (simp_all add: kv that)
  ultimately show ?case by (auto simp: kv entries_toJSON_simps split: option.splits)
qed

lemma js_toJSON_json_value: "js_toJSON v = Some w \<Longrightarrow> json_value w"
proof (induction v arbitrary: w rule: js_toJSON.induct)
  case (7 d)
  then show ?case by (cases d) auto
next
  case (8 xs)
  have "json_value (case js_toJSON x of None \<Rightarrow> JNull | Some y \<Rightarrow> y)" if "x \<in> set xs" for x
    using "8.IH" [OF that] by (cases "js_toJSON x") auto
  with "8.prems" show ?case by (auto simp: list_all_iff)
next
  case (9 kvs)
  have "list_all (\<lambda>(k, v). json_value v) (entries_toJSON kvs)"
    by (rule entries_json_value_aux) (rule "9.IH" [OF _ refl])
  with "9.prems" show ?case by (auto simp: entries_toJSON_def)
qed auto

lemma entries_fixed:
  "list_all (\<lambda>(k, v). json_value v) kvs \<Longrightarrow> entries_toJSON kvs = kvs"
  by (induction kvs) (auto simp: entries_toJSON_simps json_value_fixed)

lemma entries_json_value: "list_all (\<lambda>(k, v). json_value v) (entries_toJSON kvs)"
  by (induction kvs)
    (auto simp: entries_toJSON_simps js_toJSON_json_value split: option.splits)

lemma entries_toJSON_idem: "entries_toJSON (entries_toJSON kvs) = entries_toJSON kvs"
  by (rule entries_fixed) (rule entries_json_value)


lemma value_toJSON_idem: "value_toJSON (value_toJSON v) = value_toJSON v"
  by (cases v) (auto simp: entries_toJSON_idem)


lemma state_toJSON_idem: "state_toJSON (state_toJSON ws) = state_toJSON ws"
  by (simp add: state_toJSON_def value_toJSON_idem date_toJSON_idem split_def)


lemma saveDraft_result:
  "saveDraft env wid ws now st = Inr (ok, st') \<Longrightarrow>
   ok \<and> (st' = AList.update (DRAFT_PREFIX @ wid) (DraftJSON (draft_of env wid ws now)) st \<or>
         st' = AList.update (DRAFT_PREFIX @ wid) (DraftJSON (draft_of env wid ws now))
                 (snd (cleanupExpiredDraftsSync now st)))"
  by (auto simp: saveDraft_def Let_def draft_of_def handleQuotaExceeded_def
      split: if_splits prod.splits bool.splits)

lemma loadDraft_saved:
  assumes "lookup st (DRAFT_PREFIX @ wid) = Some (DraftJSON (draft_of env wid ws now))"
    and "now' \<le> now + 86400000"
  shows "loadDraft env wid now' st = Inr (Some (state_toJSON ws), st)"
  using assms
  by (simp add: loadDraft_def draft_of_def expired_def JSON_stringify_def state_toJSON_idem
      DRAFT_RETENTION_HOURS_def)

lemma lookup_update_same: "lookup (AList.update k v st) k = Some v"
  by (simp add: lookup_def update_conv)

lemma saveDraft_plain:
  "saveDraft demo_env ''w1'' (new_session ''w1'' 0) 0 [] = Inr (True, plain_store)"
  by (simp add: saveDraft_def Let_def checkQuota_def usage_used_def usage_total_def demo_env_def
      ascii_def plain_store_def draft_of_def DRAFT_PREFIX_def)






text \<open>The same happens to an infinite answer and, inside a record, to \<open>undefined\<close>, to a
  function, to a \<open>Date\<close> object and to a number that is not finite.\<close>

lemma value_toJSON_changes:
  "value_toJSON (VNumber PosInfinity) = VNull \<and>
   value_toJSON (VNumber NegInfinity) = VNull \<and>
   value_toJSON (VRecord [(''a'', JUndefined), (''b'', JNumber NaN), (''c'', JDate (Date 0)),
                          (''d'', JFunction), (''e'', JArray [JUndefined, JString []])]) =
     VRecord [(''b'', JNull), (''c'', JDate (IsoString 0)), (''e'', JArray [JNull, JString []])]"
  by (simp add: entries_toJSON_def)

lemma listDrafts_loop_step:
  "i < length (fst acc) \<Longrightarrow>
   listDrafts_loop env now i acc =
     listDrafts_loop env now (Suc i) (listDrafts_visit env now (fst acc ! i) acc)"
  by (subst listDrafts_loop.simps) simp

lemma listDrafts_loop_done:
  "\<not> i < length (fst acc) \<Longrightarrow> listDrafts_loop env now i acc = acc"
  by (subst listDrafts_loop.simps) simp

lemmas draft_defs = draft_a_def draft_b_def draft_c_def draft_of_def DRAFT_RETENTION_HOURS_def

text \<open>
  C4.  \<open>listDrafts\<close> removes an expired entry while it walks the storage by index, so the
  entry that moves into the freed index is never visited.  With two expired drafts the
  second stays in the storage; with an expired draft followed by a fresh one the fresh
  draft is missing from the list.  \<open>cleanupExpiredDraftsSync\<close>, which collects the keys
  before it removes them, clears both expired drafts.
\<close>

theorem listDrafts_skips_after_removal:
  "expired 100000000 draft_a \<and> expired 100000000 draft_b \<and> \<not> expired 100000000 draft_c \<and>
   listDrafts demo_env 100000000 two_expired = ([], [(''wizard-draft-b'', DraftJSON draft_b)]) \<and>
   listDrafts demo_env 100000000 expired_then_fresh =
     ([], [(''wizard-draft-c'', DraftJSON draft_c)]) \<and>
   cleanupExpiredDraftsSync 100000000 two_expired = (2, [])"
proof -
  have e: "expired 100000000 draft_a \<and> expired 100000000 draft_b \<and> \<not> expired 100000000 draft_c"
    by (simp add: expired_def draft_defs)
  have l1: "listDrafts demo_env 100000000 two_expired =
      ([], [(''wizard-draft-b'', DraftJSON draft_b)])"
    by (simp add: listDrafts_def two_expired_def listDrafts_loop_step listDrafts_loop_done
        listDrafts_visit_def startsWith_def DRAFT_PREFIX_def draft_defs sort_cmp_def)
  have l2: "listDrafts demo_env 100000000 expired_then_fresh =
      ([], [(''wizard-draft-c'', DraftJSON draft_c)])"
    by (simp add: listDrafts_def expired_then_fresh_def listDrafts_loop_step listDrafts_loop_done
        listDrafts_visit_def startsWith_def DRAFT_PREFIX_def draft_defs sort_cmp_def)
  have c: "cleanupExpiredDraftsSync 100000000 two_expired = (2, [])"
    using e by (simp add: cleanupExpiredDraftsSync_def keysToRemove_def two_expired_def
        startsWith_def DRAFT_PREFIX_def Let_def)
  from e l1 l2 c show ?thesis by simp
qed

lemma lookup_foldl_delete:
  "lookup (foldl (\<lambda>s k. AList.delete k s) st ks) key =
     (if key \<in> set ks then None else lookup st key)"
  by (induction ks arbitrary: st) (auto simp: lookup_def delete_conv)

lemma distinct_foldl_delete:
  "distinct (map fst st) \<Longrightarrow> distinct (map fst (foldl (\<lambda>s k. AList.delete k s) st ks))"
  by (induction ks arbitrary: st) (auto simp: distinct_delete)

lemma kept_key_not_removed:
  assumes "distinct (map fst st)" and "lookup st key = Some (DraftJSON d)" and "\<not> expired now d"
  shows "key \<notin> set (keysToRemove now st)"
proof
  assume "key \<in> set (keysToRemove now st)"
  then obtain v where v: "(key, v) \<in> set st"
    and rm: "(case v of Raw s \<Rightarrow> s \<noteq> [] | DraftJSON d \<Rightarrow> expired now d)"
    by (auto simp: keysToRemove_def)
  from assms(1) v have "map_of st key = Some v" by simp
  with assms(2) have "v = DraftJSON d" by (simp add: lookup_def)
  with rm assms(3) show False by simp
qed

lemma cleanup_keeps:
  assumes "distinct (map fst st)" and "lookup st key = Some (DraftJSON d)" and "\<not> expired now d"
  shows "lookup (snd (cleanupExpiredDraftsSync now st)) key = Some (DraftJSON d)"
  using kept_key_not_removed [OF assms] assms(2)
  by (simp add: cleanupExpiredDraftsSync_def Let_def lookup_foldl_delete)

lemma saveDraft_keeps_other:
  assumes "saveDraft env wid ws now st = Inr (ok, st')"
    and "distinct (map fst st)" and "lookup st key = Some (DraftJSON d)" and "\<not> expired now d"
    and "key \<noteq> DRAFT_PREFIX @ wid"
  shows "lookup st' key = Some (DraftJSON d)"
  using saveDraft_result [OF assms(1)] assms(3,5) cleanup_keeps [OF assms(2-4)]
  by (auto simp: lookup_def update_conv)

lemma saveDraft_distinct:
  assumes "saveDraft env wid ws now st = Inr (ok, st')" and "distinct (map fst st)"
  shows "distinct (map fst st')"
  using saveDraft_result [OF assms(1)] assms(2)
  by (auto simp: distinct_update cleanupExpiredDraftsSync_def Let_def distinct_foldl_delete)

lemma autoSave_fires_keeps_other:
  assumes "distinct (map fst st)" and "lookup st key = Some (DraftJSON d)" and "\<not> expired now d"
    and "key \<noteq> DRAFT_PREFIX @ wizard_id (wizardState hs)"
  shows "lookup (snd (autoSave_fires opts env now (hs, st))) key = Some (DraftJSON d)"
proof (cases "saveDraft env (wizard_id (wizardState hs)) (wizardState hs) now st")
  case (Inl e)
  with assms(2) show ?thesis by (simp add: autoSave_fires_def hook_saveDraft_def)
next
  case (Inr r)
  obtain ok st' where r: "r = (ok, st')" by (cases r)
  from saveDraft_keeps_other [OF Inr [unfolded r] assms] have "lookup st' key = Some (DraftJSON d)" .
  with Inr r assms(2) show ?thesis by (simp add: autoSave_fires_def hook_saveDraft_def)
qed

lemma loadDraft_expired:
  assumes "lookup st (DRAFT_PREFIX @ wid) = Some (DraftJSON d)"
    and "expiresAt (metadata d) = Some e" and "e < now"
  shows "loadDraft env wid now st = Inr (None, AList.delete (DRAFT_PREFIX @ wid) st)"
  using assms by (simp add: loadDraft_def expired_def)

lemma loadDraft_absent:
  "lookup st (DRAFT_PREFIX @ wid) = None \<Longrightarrow> loadDraft env wid now st = Inr (None, st)"
  by (simp add: loadDraft_def)

text \<open>
  C10.  \<open>reset\<close> puts a new session in place (the new id, step 1, layer 1, no answers, no
  validation errors, not complete) and has no access to the storage.  A draft saved
  under the old id is still loaded from the storage as \<open>reset\<close> leaves it, and also after
  the auto-save of the new session has fired, as long as its 24 hours have not passed;
  after \<open>deleteDraft\<close> of the old id, or once the 24 hours have passed, \<open>loadDraft\<close>
  finds nothing.
\<close>

theorem reset_keeps_stored_drafts:
  assumes "saveDraft env oldId ws t0 st0 = Inr (ok, st)" and "distinct (map fst st0)"
    and "newId \<noteq> oldId" and "now' \<le> t0 + 86400000" and "now'' \<le> t0 + 86400000"
  shows "reset newId now hs =
           \<lparr>wizardState = new_session newId now, validationErrors = [], lastSavedAt = None,
            hasDraft = False\<rparr> \<and>
         wizard_id (new_session newId now) = newId \<and>
         currentStep (new_session newId now) = 1 \<and> currentLayer (new_session newId now) = 1 \<and>
         answers (new_session newId now) = [] \<and> \<not> isComplete (new_session newId now) \<and>
         loadDraft env oldId now'' st = Inr (Some (state_toJSON ws), st) \<and>
         (let st2 = snd (autoSave_fires opts env now' (reset newId now hs, st))
          in loadDraft env oldId now'' st2 = Inr (Some (state_toJSON ws), st2)) \<and>
         (let st3 = snd (deleteDraft oldId st)
          in loadDraft env oldId now'' st3 = Inr (None, st3)) \<and>
         (t0 + 86400000 < t \<longrightarrow>
            loadDraft env oldId t st = Inr (None, AList.delete (DRAFT_PREFIX @ oldId) st))"
proof -
  let ?key = "DRAFT_PREFIX @ oldId"
  let ?d = "draft_of env oldId ws t0"
  from saveDraft_result [OF assms(1)] have look: "lookup st ?key = Some (DraftJSON ?d)"
    by (auto simp: lookup_update_same)
  have dist: "distinct (map fst st)" by (rule saveDraft_distinct [OF assms(1,2)])
  have fresh: "\<not> expired now' ?d"
    using assms(4) by (simp add: expired_def draft_of_def DRAFT_RETENTION_HOURS_def)
  have key: "?key \<noteq> DRAFT_PREFIX @ wizard_id (wizardState (reset newId now hs))"
    using assms(3) by (simp add: reset_def new_session_def)
  have a: "loadDraft env oldId now'' st = Inr (Some (state_toJSON ws), st)"
    by (rule loadDraft_saved [OF look assms(5)])
  have "lookup (snd (autoSave_fires opts env now' (reset newId now hs, st))) ?key
      = Some (DraftJSON ?d)"
    by (rule autoSave_fires_keeps_other [OF dist look fresh key])
  from loadDraft_saved [OF this assms(5)]
  have b: "let st2 = snd (autoSave_fires opts env now' (reset newId now hs, st))
          in loadDraft env oldId now'' st2 = Inr (Some (state_toJSON ws), st2)"
    by (simp add: Let_def)
  have c: "let st3 = snd (deleteDraft oldId st)
          in loadDraft env oldId now'' st3 = Inr (None, st3)"
    by (simp add: Let_def deleteDraft_def loadDraft_absent lookup_def delete_conv)
  have d: "t0 + 86400000 < t \<longrightarrow>
            loadDraft env oldId t st = Inr (None, AList.delete ?key st)"
    using loadDraft_expired [OF look, of "t0 + 86400000" t env]
    by (simp add: draft_of_def DRAFT_RETENTION_HOURS_def)
  from a b c d show ?thesis by (simp add: reset_def new_session_def)
qed

theorem reset_keeps_stored_drafts_witness:
  "wizard_id (wizardState (reset ''w2'' 5 (initial_state ''w1'' 0))) = ''w2'' \<and>
   loadDraft demo_env ''w1'' 20 plain_store =
     Inr (Some (state_toJSON (new_session ''w1'' 0)), plain_store) \<and>
   loadDraft demo_env ''w1'' 20
       (snd (autoSave_fires demo_options demo_env 10
               (reset ''w2'' 5 (initial_state ''w1'' 0), plain_store))) =
     Inr (Some (state_toJSON (new_session ''w1'' 0)),
          snd (autoSave_fires demo_options demo_env 10
                 (reset ''w2'' 5 (initial_state ''w1'' 0), plain_store))) \<and>
   loadDraft demo_env ''w1'' 90000000 plain_store =
     Inr (None, AList.delete (DRAFT_PREFIX @ ''w1'') plain_store)"
  using reset_keeps_stored_drafts [OF saveDraft_plain, of "''w2''" 10 20 5 "initial_state ''w1'' 0"
      demo_options 90000000]
  by (simp add: Let_def reset_def)

section \<open>Properties of the output generation\<close>

lemma filter_dropWhile:
  "(\<And>x. Q x \<Longrightarrow> \<not> P x) \<Longrightarrow> filter P (dropWhile Q xs) = filter P xs"
  by (induction xs) auto

lemma trim_keeps_visible:
  "length (filter (\<lambda>c. \<not> isWhiteSpace c) xs) \<le> length (trim xs)"
proof -
  have "filter (\<lambda>c. \<not> isWhiteSpace c) (trim xs) = filter (\<lambda>c. \<not> isWhiteSpace c) xs"
    by (simp add: trim_def filter_dropWhile rev_filter [symmetric])
  then have "length (filter (\<lambda>c. \<not> isWhiteSpace c) xs)
      = length (filter (\<lambda>c. \<not> isWhiteSpace c) (trim xs))" by simp
  also have "\<dots> \<le> length (trim xs)" by (rule length_filter_le)
  finally show ?thesis .
qed

lemma filter_join_member:
  "x \<in> set xs \<Longrightarrow> length (filter P x) \<le> length (filter P (join sep xs))"
proof (induction xs)
  case Nil
  then show ?case by simp
next
  case (Cons y ys)
  show ?case
  proof (cases "x = y")
    case True
    then show ?thesis by (simp add: join_def)
  next
    case False
    with Cons.prems have "x \<in> set ys" by simp
    then have "length (filter P x) \<le> length (filter P (concat (map (\<lambda>z. sep @ z) ys)))"
      by (induction ys) auto
    then show ?thesis by (simp add: join_def)
  qed
qed

lemma wordCount_lower_bound:
  assumes "purpose_primary sd \<noteq> []"
  shows "length (filter (\<lambda>c. c \<noteq> 35 \<and> c \<noteq> 42 \<and> c \<noteq> 45 \<and> c \<noteq> 10 \<and> \<not> isWhiteSpace c)
           (purpose_primary sd))
         \<le> wordCount (generateMarkdownSpec sm sd g)"
proof -
  let ?keep = "\<lambda>c::nat. c \<noteq> 35 \<and> c \<noteq> 42 \<and> c \<noteq> 45 \<and> c \<noteq> 10"
  let ?vis = "\<lambda>c. \<not> isWhiteSpace c"
  let ?line = "[42, 42, 20027, 35201, 30446, 30340, 58, 42, 42, 32] @ purpose_primary sd"
  let ?content = "join [10] (nonEmpty (markdown_sections sm sd g))"
  have mem: "?line \<in> set (nonEmpty (markdown_sections sm sd g))"
    by (simp add: nonEmpty_def markdown_sections_def)
  have "length (filter (\<lambda>c. ?keep c \<and> ?vis c) (purpose_primary sd))
      \<le> length (filter (\<lambda>c. ?keep c \<and> ?vis c) ?line)" by simp
  also have "\<dots> \<le> length (filter (\<lambda>c. ?keep c \<and> ?vis c) ?content)"
    by (rule filter_join_member [OF mem])
  also have "\<dots> = length (filter ?vis (filter ?keep ?content))" by simp
  also have "\<dots> \<le> length (trim (filter ?keep ?content))" by (rule trim_keeps_visible)
  finally show ?thesis by (simp add: generateMarkdownSpec_def Let_def)
qed

lemma long_answers: "lookup (answers long_session) ''layer1_purpose'' = Some (VString long_purpose)
  \<and> lookup (answers long_session) ''layer1_kpi'' = Some (VString (ascii ''50% faster''))
  \<and> length (answers long_session) = 15 \<and> isComplete long_session"
  by (simp add: sample_defs lookup_def)

lemma long_summary: "length (summary_text (answers long_session)) = 113"
  using long_answers
  by (simp add: summary_text_def or_empty_def slice_def long_purpose_def ascii_def)

lemma long_primary: "purpose_primary (generateStructuredData long_session) = long_purpose"
  using long_answers
  by (simp add: generateStructuredData_def Let_def or_empty_def long_purpose_def ascii_def)

lemma long_visible:
  "length (filter (\<lambda>c. c \<noteq> 35 \<and> c \<noteq> 42 \<and> c \<noteq> 45 \<and> c \<noteq> 10 \<and> \<not> isWhiteSpace c) long_purpose) = 116"
  by (simp add: long_purpose_def ascii_def isWhiteSpace_def)

lemma long_valid:
  "validateOutputStructure
     \<lparr>summary = generateSummary long_session catalogue,
      structuredData = generateStructuredData long_session,
      markdownSpec = generateMarkdownSpec (generateSummary long_session catalogue)
                       (generateStructuredData long_session) g\<rparr>"
proof -
  have p: "purpose_primary (generateStructuredData long_session) \<noteq> []"
    by (simp add: long_primary long_purpose_def ascii_def)
  from wordCount_lower_bound [OF p, of "generateSummary long_session catalogue" g]
  have w: "100 \<le> wordCount (generateMarkdownSpec (generateSummary long_session catalogue)
                       (generateStructuredData long_session) g)"
    by (simp add: long_primary long_visible)
  then have c: "content (generateMarkdownSpec (generateSummary long_session catalogue)
                       (generateStructuredData long_session) g) \<noteq> []"
    by (auto simp: generateMarkdownSpec_def Let_def trim_def)
  have s: "length (sm_text (generateSummary long_session catalogue)) = 113"
    by (simp add: generateSummary_def Let_def long_summary)
  from p w c s show ?thesis by (auto simp: validateOutputStructure_def)
qed


lemma generateOutput_long:
  "generateOutput default_output_options 0 10 generatedAt_sample long_session catalogue =
     Inr \<lparr>summary = generateSummary long_session catalogue,
          structuredData = generateStructuredData long_session,
          markdownSpec = generateMarkdownSpec (generateSummary long_session catalogue)
                           (generateStructuredData long_session) generatedAt_sample\<rparr>"
  using long_valid [of generatedAt_sample] long_answers
  by (simp add: generateOutput_def Let_def validateOutputGenerationTime_def)

text \<open>What does hold: an output that passed the validation has a summary of 50 to 500
  characters.\<close>

lemma generateOutput_summary_length:
  "enableStructuredDataValidation oo \<Longrightarrow> generateOutput oo t0 t1 g ws qs = Inr out \<Longrightarrow>
   50 \<le> length (sm_text (summary out)) \<and> length (sm_text (summary out)) \<le> 500"
  by (auto simp: generateOutput_def Let_def validateOutputStructure_def split: if_splits)

text \<open>
  C6, as amended.  \<open>generateOutput\<close> yields an output only for a session that is complete
  and has at least 12 keys in its answer map, whether the fields under them are filled in
  or were cleared again.  For a session that is not complete it yields the error that
  says so and no output; for a complete session with fewer than 12 keys it yields the
  error that names the minimum of 12 and no output.
\<close>

theorem generateOutput_preconditions:
  "(generateOutput oo t0 t1 g ws qs = Inr out \<longrightarrow> isComplete ws \<and> 12 \<le> length (answers ws)) \<and>
   (\<not> isComplete ws \<longrightarrow>
      generateOutput oo t0 t1 g ws qs =
        Inl (Error ''Wizard must be completed before generating output'')) \<and>
   (isComplete ws \<and> length (answers ws) < 12 \<longrightarrow>
      generateOutput oo t0 t1 g ws qs =
        Inl (Error ''Insufficient answers provided (minimum 12 required)''))"
  by (auto simp: generateOutput_def Let_def split: if_splits)

theorem generateOutput_preconditions_witness:
  "generateOutput default_output_options 0 10 generatedAt_sample (new_session ''w1'' 0) catalogue =
     Inl (Error ''Wizard must be completed before generating output'') \<and>
   generateOutput default_output_options 0 10 generatedAt_sample
       ((new_session ''w1'' 0)\<lparr>isComplete := True\<rparr>) catalogue =
     Inl (Error ''Insufficient answers provided (minimum 12 required)'') \<and>
   generateOutput default_output_options 0 10 generatedAt_sample long_session catalogue =
     Inr \<lparr>summary = generateSummary long_session catalogue,
          structuredData = generateStructuredData long_session,
          markdownSpec = generateMarkdownSpec (generateSummary long_session catalogue)
                           (generateStructuredData long_session) generatedAt_sample\<rparr> \<and>
   isComplete long_session \<and> length (answers long_session) = 15"
  using generateOutput_preconditions [of default_output_options 0 10 generatedAt_sample
      "new_session ''w1'' 0" catalogue]
    generateOutput_preconditions [of default_output_options 0 10 generatedAt_sample
      "(new_session ''w1'' 0)\<lparr>isComplete := True\<rparr>" catalogue]
    generateOutput_preconditions [of default_output_options 0 10 generatedAt_sample
      long_session catalogue]
    generateOutput_long long_answers
  by (simp add: new_session_def)

lemmas sparse_defs = sparse_answers_def sparse_catalogue_def sparse_options_def sparse_hook_def
  sparse_session_def

lemma sparse_answers_facts:
  "lookup (answers sparse_session) ''layer1_purpose'' = Some (VString long_purpose) \<and>
   lookup (answers sparse_session) ''layer1_kpi'' = Some (VString []) \<and>
   length (answers sparse_session) = 12 \<and> isComplete sparse_session"
  by (simp add: sparse_defs sample_defs lookup_def)

lemma sparse_populated:
  "populated (answers sparse_session) = [(''layer1_purpose'', VString long_purpose)]"
  by (simp add: populated_def sparse_defs sample_defs trim_def long_purpose_def ascii_def
      isWhiteSpace_def)

lemma sparse_accepted: "validateAllAnswers sparse_catalogue sparse_answers = []"
  by (simp add: sparse_defs sample_defs validateAllAnswers_def validateAnswer_def lookup_def
      trim_def long_purpose_def ascii_def isWhiteSpace_def length_errors_def nonzero_def
      pattern_errors_def type_errors_def dependency_errors_def hidden_def)

lemma sparse_summary: "length (summary_text (answers sparse_session)) = 100"
  using sparse_answers_facts
  by (simp add: summary_text_def or_empty_def slice_def long_purpose_def ascii_def)

lemma sparse_primary: "purpose_primary (generateStructuredData sparse_session) = long_purpose"
  using sparse_answers_facts
  by (simp add: generateStructuredData_def Let_def or_empty_def long_purpose_def ascii_def)

lemma sparse_valid:
  "validateOutputStructure
     \<lparr>summary = generateSummary sparse_session sparse_catalogue,
      structuredData = generateStructuredData sparse_session,
      markdownSpec = generateMarkdownSpec (generateSummary sparse_session sparse_catalogue)
                       (generateStructuredData sparse_session) g\<rparr>"
proof -
  have p: "purpose_primary (generateStructuredData sparse_session) \<noteq> []"
    by (simp add: sparse_primary long_purpose_def ascii_def)
  from wordCount_lower_bound [OF p, of "generateSummary sparse_session sparse_catalogue" g]
  have w: "100 \<le> wordCount (generateMarkdownSpec (generateSummary sparse_session sparse_catalogue)
                       (generateStructuredData sparse_session) g)"
    by (simp add: sparse_primary long_visible)
  then have c: "content (generateMarkdownSpec (generateSummary sparse_session sparse_catalogue)
                       (generateStructuredData sparse_session) g) \<noteq> []"
    by (auto simp: generateMarkdownSpec_def Let_def trim_def)
  have s: "length (sm_text (generateSummary sparse_session sparse_catalogue)) = 100"
    by (simp add: generateSummary_def Let_def sparse_summary)
  from p w c s show ?thesis by (auto simp: validateOutputStructure_def)
qed

text \<open>
  C6, as stated, fails: the floor of 12 is on the keys of the answer map, not on the
  populated fields.  \<open>setAnswer\<close> keeps the key of a field that is cleared, so a session
  can hold 12 keys and one populated field.  On a catalogue where only the purpose is
  required \<open>complete\<close> accepts it, and \<open>generateOutput\<close> yields an output and no
  precondition error.
\<close>

theorem generateOutput_counts_cleared_fields:
  "length (answers sparse_session) = 12 \<and>
   populated (answers sparse_session) = [(''layer1_purpose'', VString long_purpose)] \<and>
   complete sparse_options 9 sparse_hook = (True, sparse_hook\<lparr>wizardState := sparse_session\<rparr>) \<and>
   generateOutput default_output_options 0 10 generatedAt_sample sparse_session sparse_catalogue =
     Inr \<lparr>summary = generateSummary sparse_session sparse_catalogue,
          structuredData = generateStructuredData sparse_session,
          markdownSpec = generateMarkdownSpec (generateSummary sparse_session sparse_catalogue)
                           (generateStructuredData sparse_session) generatedAt_sample\<rparr>"
proof -
  have c: "complete sparse_options 9 sparse_hook =
      (True, sparse_hook\<lparr>wizardState := sparse_session\<rparr>)"
    using sparse_accepted
    by (simp add: complete_def sparse_options_def sparse_session_def sparse_hook_def)
  have g: "generateOutput default_output_options 0 10 generatedAt_sample sparse_session
        sparse_catalogue =
     Inr \<lparr>summary = generateSummary sparse_session sparse_catalogue,
          structuredData = generateStructuredData sparse_session,
          markdownSpec = generateMarkdownSpec (generateSummary sparse_session sparse_catalogue)
                           (generateStructuredData sparse_session) generatedAt_sample\<rparr>"
    using sparse_valid [of generatedAt_sample] sparse_answers_facts
    by (simp add: generateOutput_def Let_def validateOutputGenerationTime_def)
  from sparse_answers_facts sparse_populated c g show ?thesis by simp
qed

lemma short_valid: "validateAllAnswers catalogue short_answers = []"
  by (simp add: sample_defs validateAllAnswers_def validateAnswer_def lookup_def trim_def ascii_def
      isWhiteSpace_def length_errors_def nonzero_def pattern_errors_def type_errors_def
      dependency_errors_def hidden_def)

lemma short_summary:
  "summary_text short_answers = ascii ''Automate reports (50% faster)'' @ summary_suffix"
  by (simp add: summary_text_def short_answers_def lookup_def or_empty_def slice_def ascii_def
      summary_suffix_def)

text \<open>
  C7.  The summary is meant to be 50 to 500 characters long, and a text below 50 gets
  the suffix appended.  The suffix has 14 characters, so a short text stays below 50:
  with fifteen valid answers, accepted by \<open>complete\<close>, the summary has 43 characters and
  \<open>generateOutput\<close> ends in the error of the output validation instead of an output.
\<close>

theorem summary_padding_falls_short:
  "validateAllAnswers catalogue short_answers = [] \<and>
   complete catalogue_options 9 answered_all =
     (True, answered_all\<lparr>wizardState := short_session\<rparr>) \<and>
   sm_text (generateSummary short_session catalogue) =
     ascii ''Automate reports (50% faster)'' @ summary_suffix \<and>
   length (sm_text (generateSummary short_session catalogue)) = 43 \<and>
   generateOutput default_output_options 0 10 generatedAt_sample short_session catalogue =
     Inl (Error ''Generated output failed validation'')"
proof -
  have c: "complete catalogue_options 9 answered_all =
     (True, answered_all\<lparr>wizardState := short_session\<rparr>)"
    using short_valid
    by (simp add: complete_def catalogue_options_def short_session_def answered_all_def)
  have a: "answers short_session = short_answers \<and> isComplete short_session"
    by (simp add: short_session_def answered_all_def)
  have t: "sm_text (generateSummary short_session catalogue) =
     ascii ''Automate reports (50% faster)'' @ summary_suffix"
    by (simp add: generateSummary_def Let_def a short_summary)
  have l: "length (sm_text (generateSummary short_session catalogue)) = 43"
    by (simp add: t summary_suffix_def ascii_def)
  have g: "generateOutput default_output_options 0 10 generatedAt_sample short_session catalogue =
     Inl (Error ''Generated output failed validation'')"
    using l a by (simp add: generateOutput_def Let_def validateOutputStructure_def
        default_output_options_def short_answers_def)
  from short_valid c t l g show ?thesis by simp
qed

end
